theory Spec2Isabelle
  imports Complex_Main "HOL-Library.AList" "HOL-Library.Countable"
begin

section \<open>Virtus WorkChain: blocks, chain, proof of work, stake ledger\<close>

text \<open>
  A shallow embedding of \<^verbatim>\<open>blockchain.py\<close>, \<^verbatim>\<open>consensus.py\<close>, \<^verbatim>\<open>utils.py\<close> and
  \<^verbatim>\<open>task.py\<close>. Python's unbounded integers are \<open>int\<close>. A finite float is the rational
  number it denotes: the readings of \<^verbatim>\<open>time.time()\<close> are \<open>rat\<close>, and float arithmetic
  rounds through a parameter of the library (\<open>round_float\<close> below). The draw of
  \<^verbatim>\<open>random.uniform\<close> is taken as any real number, and is only compared with integers,
  which Python does exactly. Python lists are HOL lists; the insertion-ordered dictionary
  of stakers is an association list. Every \<^verbatim>\<open>raise\<close> is a value of type \<open>error\<close>; every
  \<^verbatim>\<open>print\<close> is dropped.
\<close>

subsection \<open>The Python library, as parameters\<close>

text \<open>
  The values handed to \<^verbatim>\<open>json.dumps\<close>: integers, floats, strings, lists and
  dictionaries (key-value pairs in the order the source writes them).
\<close>

datatype json =
    JInt int
  | JFloat rat
  | JStr string
  | JList "json list"
  | JDict "(string \<times> json) list"

text \<open>
  A Python float: a finite value (the rational number it denotes), an infinity, or nan.
\<close>

datatype pyfloat = Fin rat | PosInf | NegInf | NaN

text \<open>
  The library functions the code calls are not code of the repository; they are taken as
  parameters:
  \<^item> \<open>sha256_hexdigest s\<close> is \<^verbatim>\<open>hashlib.sha256(s.encode()).hexdigest()\<close>,
  \<^item> \<open>json_dumps d\<close> is \<^verbatim>\<open>json.dumps(d, sort_keys=True)\<close>,
  \<^item> \<open>str_float t\<close> is the text an f-string gives for the float \<open>t\<close>,
  \<^item> \<open>round_float q\<close> is the float that the exact result \<open>q\<close> of an arithmetic operation
    is rounded to: the nearest finite float, or an infinity when \<open>q\<close> is beyond the range.
\<close>

record pylib =
  sha256_hexdigest :: "string \<Rightarrow> string"
  json_dumps :: "json \<Rightarrow> string"
  str_float :: "rat \<Rightarrow> string"
  round_float :: "rat \<Rightarrow> pyfloat"

text \<open>
  The exceptions of the source. The four \<^verbatim>\<open>ValueError\<close>s are told apart by their message:
  \<open>InsufficientCertificates\<close> is "Need at least ... task certificates to mine",
  \<open>BelowMinimumStake\<close> is "Stake must be at least ... tokens", \<open>InsufficientStake\<close> is
  "Insufficient stake" and \<open>NoStakers\<close> is "No stakers available". \<open>OverflowError\<close> is what
  the true division of two integers raises when the quotient is too large for a float.
\<close>

datatype error =
    InsufficientCertificates
  | BelowMinimumStake
  | InsufficientStake
  | NoStakers
  | IndexError
  | NameError
  | OverflowError

subsection \<open>Transactions, certificates, blocks\<close>

text \<open>The dictionary \<^verbatim>\<open>{"from": ..., "to": ..., "amount": ...}\<close>.\<close>

record transaction =
  tx_from :: string
  tx_to :: string
  amount :: int

text \<open>The dictionary built by \<^verbatim>\<open>generate_task_certificate\<close> and \<^verbatim>\<open>generate_certificate\<close>.\<close>

record certificate =
  task_id :: string
  user_address :: string
  cert_timestamp :: rat
  signature :: string

record block =
  index :: int
  timestamp :: rat
  transactions :: "transaction list"
  task_certificates :: "certificate list"
  previous_hash :: string
  nonce :: int
  hash :: string

definition transaction_json :: "transaction \<Rightarrow> json" where
  "transaction_json t =
     JDict [(''from'', JStr (tx_from t)), (''to'', JStr (tx_to t)), (''amount'', JInt (amount t))]"

definition certificate_json :: "certificate \<Rightarrow> json" where
  "certificate_json c =
     JDict [(''task_id'', JStr (task_id c)), (''user_address'', JStr (user_address c)),
            (''timestamp'', JFloat (cert_timestamp c)), (''signature'', JStr (signature c))]"

text \<open>\<^verbatim>\<open>Block.calculate_hash\<close>: the six fields, serialised and digested; the stored hash is not read.\<close>

definition calculate_hash :: "pylib \<Rightarrow> block \<Rightarrow> string" where
  "calculate_hash L b =
     sha256_hexdigest L (json_dumps L (JDict
       [(''index'', JInt (index b)),
        (''timestamp'', JFloat (timestamp b)),
        (''transactions'', JList (map transaction_json (transactions b))),
        (''task_certificates'', JList (map certificate_json (task_certificates b))),
        (''previous_hash'', JStr (previous_hash b)),
        (''nonce'', JInt (nonce b))]))"

text \<open>
  \<^verbatim>\<open>Block.__init__\<close>; \<open>now\<close> is the value \<^verbatim>\<open>time.time()\<close> returns in the constructor.
\<close>

definition Block :: "pylib \<Rightarrow> rat \<Rightarrow> int \<Rightarrow> transaction list \<Rightarrow> certificate list \<Rightarrow> string \<Rightarrow> block" where
  "Block L now idx txs certs prev =
     (let b = \<lparr>index = idx, timestamp = now, transactions = txs, task_certificates = certs,
               previous_hash = prev, nonce = 0, hash = []\<rparr>
      in b\<lparr>hash := calculate_hash L b\<rparr>)"

subsection \<open>The chain\<close>

text \<open>
  The attributes of \<^verbatim>\<open>VirtusWorkChain\<close>; \<open>chain_blocks\<close> is \<^verbatim>\<open>self.chain\<close>. The difficulty
  and the minimum number of certificates are only ever used as a slice bound, a repeat
  count and a length bound, and the constructor sets them to 4 and 5: they are natural
  numbers here.
\<close>

record VirtusWorkChain =
  chain_blocks :: "block list"
  difficulty :: nat
  pending_transactions :: "transaction list"
  pending_task_certificates :: "certificate list"
  min_task_certificates_per_block :: nat
  mining_reward :: int

definition create_genesis_block :: "pylib \<Rightarrow> rat \<Rightarrow> block" where
  "create_genesis_block L now = Block L now 0 [] [] ''0''"

text \<open>\<^verbatim>\<open>VirtusWorkChain.__init__\<close>; \<open>now\<close> is the clock reading of the genesis block.\<close>

definition VirtusWorkChain_init :: "pylib \<Rightarrow> rat \<Rightarrow> VirtusWorkChain" where
  "VirtusWorkChain_init L now =
     \<lparr>chain_blocks = [create_genesis_block L now], difficulty = 4, pending_transactions = [],
      pending_task_certificates = [], min_task_certificates_per_block = 5, mining_reward = 5\<rparr>"

text \<open>\<^verbatim>\<open>self.chain[-1]\<close> raises \<^verbatim>\<open>IndexError\<close> on an empty list.\<close>

definition get_latest_block :: "VirtusWorkChain \<Rightarrow> error + block" where
  "get_latest_block s = (if chain_blocks s = [] then Inl IndexError else Inr (last (chain_blocks s)))"

text \<open>
  The proof-of-work loop of \<^verbatim>\<open>mine_block\<close>:
  \<^verbatim>\<open>while block.hash[:d] != "0" * d: block.nonce += 1; block.hash = block.calculate_hash()\<close>.
  \<open>next_nonce\<close> is the loop body. Nothing bounds the search, so a run that never ends is
  the value \<open>None\<close>.
\<close>

definition next_nonce :: "pylib \<Rightarrow> block \<Rightarrow> block" where
  "next_nonce L b = (let b1 = b\<lparr>nonce := nonce b + 1\<rparr> in b1\<lparr>hash := calculate_hash L b1\<rparr>)"

partial_function (option) proof_of_work :: "pylib \<Rightarrow> nat \<Rightarrow> block \<Rightarrow> block option" where
  "proof_of_work L d b =
     (if take d (hash b) \<noteq> replicate d (CHR ''0'')
      then proof_of_work L d (next_nonce L b)
      else Some b)"

text \<open>
  \<^verbatim>\<open>mine_block\<close>. The result is \<open>None\<close> when the search runs forever; otherwise the
  outcome and the state left behind. An exception leaves every assignment made before it
  in place. The method has no \<^verbatim>\<open>return\<close> statement: a call that does not raise returns
  Python's \<^verbatim>\<open>None\<close>, here \<open>Inr None\<close>.
\<close>

definition mine_block ::
  "pylib \<Rightarrow> rat \<Rightarrow> string \<Rightarrow> VirtusWorkChain \<Rightarrow> ((error + block option) \<times> VirtusWorkChain) option" where
  "mine_block L now miner_address s =
     (let reward_tx = \<lparr>tx_from = ''network'', tx_to = miner_address, amount = mining_reward s\<rparr>;
          s1 = s\<lparr>pending_transactions := pending_transactions s @ [reward_tx]\<rparr>
      in if length (pending_task_certificates s1) < min_task_certificates_per_block s1
         then Some (Inl InsufficientCertificates, s1)
         else
           let certs = take (min_task_certificates_per_block s1) (pending_task_certificates s1);
               s2 = s1\<lparr>pending_task_certificates :=
                         drop (min_task_certificates_per_block s1) (pending_task_certificates s1)\<rparr>
           in case get_latest_block s2 of
                Inl e \<Rightarrow> Some (Inl e, s2)
              | Inr latest \<Rightarrow>
                 (case proof_of_work L (difficulty s2)
                         (Block L now (int (length (chain_blocks s2))) (pending_transactions s2)
                            certs (hash latest)) of
                    None \<Rightarrow> None
                  | Some b \<Rightarrow>
                      Some (Inr None,
                            s2\<lparr>chain_blocks := chain_blocks s2 @ [b], pending_transactions := []\<rparr>)))"

text \<open>
  The block \<^verbatim>\<open>mine_block\<close> builds before the search, when the chain is not empty and enough
  certificates are pending: the pending transactions with the reward at the end, and the
  first \<open>min_task_certificates_per_block\<close> pending certificates.
\<close>

definition candidate_block :: "pylib \<Rightarrow> rat \<Rightarrow> string \<Rightarrow> VirtusWorkChain \<Rightarrow> block" where
  "candidate_block L now miner_address s =
     Block L now (int (length (chain_blocks s)))
       (pending_transactions s @ [\<lparr>tx_from = ''network'', tx_to = miner_address, amount = mining_reward s\<rparr>])
       (take (min_task_certificates_per_block s) (pending_task_certificates s))
       (hash (last (chain_blocks s)))"

definition add_transaction :: "string \<Rightarrow> string \<Rightarrow> int \<Rightarrow> VirtusWorkChain \<Rightarrow> VirtusWorkChain" where
  "add_transaction sender recipient amt s =
     s\<lparr>pending_transactions :=
         pending_transactions s @ [\<lparr>tx_from = sender, tx_to = recipient, amount = amt\<rparr>]\<rparr>"

definition add_task_certificate :: "certificate \<Rightarrow> VirtusWorkChain \<Rightarrow> VirtusWorkChain" where
  "add_task_certificate c s = s\<lparr>pending_task_certificates := pending_task_certificates s @ [c]\<rparr>"

text \<open>
  \<^verbatim>\<open>is_chain_valid\<close>. Each \<^verbatim>\<open>print\<close> followed by \<^verbatim>\<open>return False\<close> is a verdict that names the
  rule and the index; \<open>Valid\<close> is \<^verbatim>\<open>return True\<close>.
\<close>

datatype verdict =
    Valid
  | Invalid_hash nat
  | Chain_broken nat
  | Insufficient_task_certificates nat

fun check_blocks :: "pylib \<Rightarrow> VirtusWorkChain \<Rightarrow> nat list \<Rightarrow> verdict" where
  "check_blocks L s [] = Valid"
| "check_blocks L s (i # rest) =
     (let current_block = chain_blocks s ! i;
          previous_block = chain_blocks s ! (i - 1)
      in if hash current_block \<noteq> calculate_hash L current_block then Invalid_hash i
         else if previous_hash current_block \<noteq> hash previous_block then Chain_broken i
         else if length (task_certificates current_block) < min_task_certificates_per_block s
              then Insufficient_task_certificates i
         else check_blocks L s rest)"

text \<open>The loop runs over \<^verbatim>\<open>range(1, len(self.chain))\<close>, so every index it reads is in range.\<close>

definition chain_verdict :: "pylib \<Rightarrow> VirtusWorkChain \<Rightarrow> verdict" where
  "chain_verdict L s = check_blocks L s [1 ..< length (chain_blocks s)]"

definition is_chain_valid :: "pylib \<Rightarrow> VirtusWorkChain \<Rightarrow> bool" where
  "is_chain_valid L s = (chain_verdict L s = Valid)"

text \<open>
  The states of a chain object: the constructor, then any calls of \<^verbatim>\<open>add_transaction\<close>,
  \<^verbatim>\<open>add_task_certificate\<close> and \<^verbatim>\<open>mine_block\<close> that return or raise (a call of
  \<^verbatim>\<open>mine_block\<close> that raises leaves its reward transaction behind, so it is a step too).
  \<open>t0\<close> is the clock reading of the genesis block.
\<close>

inductive reachable :: "pylib \<Rightarrow> rat \<Rightarrow> VirtusWorkChain \<Rightarrow> bool" for L :: pylib and t0 :: rat where
  init: "reachable L t0 (VirtusWorkChain_init L t0)"
| transaction: "reachable L t0 s \<Longrightarrow> reachable L t0 (add_transaction sender recipient amt s)"
| task_certificate: "reachable L t0 s \<Longrightarrow> reachable L t0 (add_task_certificate c s)"
| mine: "reachable L t0 s \<Longrightarrow> mine_block L now miner_address s = Some (r, s') \<Longrightarrow> reachable L t0 s'"

subsection \<open>Certificates\<close>

text \<open>
  \<^verbatim>\<open>time.time()\<close> reads a clock: \<open>clk n\<close> is what the \<open>n\<close>-th call returns, and each call
  moves on to the next reading.
\<close>

type_synonym clock = "nat \<Rightarrow> rat"

definition time_time :: "clock \<Rightarrow> nat \<Rightarrow> rat \<times> nat" where
  "time_time clk n = (clk n, Suc n)"

text \<open>
  \<^verbatim>\<open>generate_task_certificate\<close> of \<^verbatim>\<open>blockchain.py\<close>. \<open>valid\<close> is what \<^verbatim>\<open>validate_task\<close> (a
  random choice) returns. The dictionary display evaluates its values in order, so the
  \<^verbatim>\<open>time.time()\<close> of the timestamp is called before the one inside the f-string of the
  signature. \<open>None\<close> is Python's \<^verbatim>\<open>None\<close>.
\<close>

definition generate_task_certificate ::
  "pylib \<Rightarrow> bool \<Rightarrow> clock \<Rightarrow> string \<Rightarrow> string \<Rightarrow> nat \<Rightarrow> certificate option \<times> nat" where
  "generate_task_certificate L valid clk tid ua n =
     (if valid then
        (let (t1, n1) = time_time clk n;
             (t2, n2) = time_time clk n1
         in (Some \<lparr>task_id = tid, user_address = ua, cert_timestamp = t1,
                    signature = sha256_hexdigest L (tid @ ua @ str_float L t2)\<rparr>, n2))
      else (None, n))"

text \<open>
  \<^verbatim>\<open>generate_certificate\<close> of \<^verbatim>\<open>utils.py\<close>. The module imports \<^verbatim>\<open>hashlib\<close> and \<^verbatim>\<open>json\<close> and
  defines two functions; \<open>utils_globals\<close> lists the names bound in it. The first statement
  reads the global \<^verbatim>\<open>time\<close>, which raises \<^verbatim>\<open>NameError\<close> when the name is unbound. The rest
  of the body reads the clock once and uses that reading twice.
\<close>

definition utils_globals :: "string list" where
  "utils_globals = [''hashlib'', ''json'', ''sha256_hash'', ''generate_certificate'']"

definition generate_certificate ::
  "pylib \<Rightarrow> clock \<Rightarrow> string \<Rightarrow> string \<Rightarrow> nat \<Rightarrow> (error + certificate) \<times> nat" where
  "generate_certificate L clk tid ua n =
     (if ''time'' \<notin> set utils_globals then (Inl NameError, n)
      else
        (let (ts, n1) = time_time clk n;
             sig = sha256_hexdigest L (tid @ ua @ str_float L ts)
         in (Inr \<lparr>task_id = tid, user_address = ua, cert_timestamp = ts, signature = sig\<rparr>, n1)))"

text \<open>\<^verbatim>\<open>complete_task\<close> of \<^verbatim>\<open>task.py\<close>; \<open>valid\<close> is what its \<^verbatim>\<open>validate_task\<close> returns.\<close>

definition complete_task ::
  "pylib \<Rightarrow> bool \<Rightarrow> clock \<Rightarrow> string \<Rightarrow> string \<Rightarrow> nat \<Rightarrow> (error + certificate option) \<times> nat" where
  "complete_task L valid clk tid ua n =
     (if valid then
        (case generate_certificate L clk tid ua n of
           (Inl e, n1) \<Rightarrow> (Inl e, n1)
         | (Inr c, n1) \<Rightarrow> (Inr (Some c), n1))
      else (Inr None, n))"

subsection \<open>The stake ledger\<close>

text \<open>
  \<^verbatim>\<open>self.stakers\<close> is a dictionary, iterated in insertion order: an association list
  whose keys are distinct. Assigning to a key that is present keeps its position, a new
  key goes to the end (\<open>AList.update\<close>); \<^verbatim>\<open>del\<close> removes the key (\<open>AList.delete\<close>).
\<close>

record ProofOfStake =
  stakers :: "(string \<times> int) list"
  min_stake :: int

definition ProofOfStake_init :: ProofOfStake where
  "ProofOfStake_init = \<lparr>stakers = [], min_stake = 10\<rparr>"

definition add_staker :: "string \<Rightarrow> int \<Rightarrow> ProofOfStake \<Rightarrow> error + ProofOfStake" where
  "add_staker public_key amt p =
     (if amt < min_stake p then Inl BelowMinimumStake
      else (case map_of (stakers p) public_key of
              Some bal \<Rightarrow> Inr (p\<lparr>stakers := AList.update public_key (bal + amt) (stakers p)\<rparr>)
            | None \<Rightarrow> Inr (p\<lparr>stakers := AList.update public_key amt (stakers p)\<rparr>)))"

definition remove_staker :: "string \<Rightarrow> int \<Rightarrow> ProofOfStake \<Rightarrow> error + ProofOfStake" where
  "remove_staker public_key amt p =
     (case map_of (stakers p) public_key of
        None \<Rightarrow> Inl InsufficientStake
      | Some bal \<Rightarrow>
          if bal < amt then Inl InsufficientStake
          else
            (let st1 = AList.update public_key (bal - amt) (stakers p)
             in if bal - amt = 0 then Inr (p\<lparr>stakers := AList.delete public_key st1\<rparr>)
                else Inr (p\<lparr>stakers := st1\<rparr>)))"

text \<open>
  The loop of \<^verbatim>\<open>select_validator\<close>: \<open>current\<close> accumulates the stakes; the first key whose
  running total reaches \<open>selection\<close> is returned, \<open>None\<close> when the loop runs out.
\<close>

fun walk_stakers :: "real \<Rightarrow> int \<Rightarrow> (string \<times> int) list \<Rightarrow> string option" where
  "walk_stakers selection current [] = None"
| "walk_stakers selection current ((public_key, stake) # rest) =
     (if selection \<le> real_of_int (current + stake) then Some public_key
      else walk_stakers selection (current + stake) rest)"

text \<open>
  \<^verbatim>\<open>select_validator\<close>; \<open>uniform a b\<close> is what \<^verbatim>\<open>random.uniform(a, b)\<close> returns in this call.
\<close>

definition select_validator :: "(real \<Rightarrow> real \<Rightarrow> real) \<Rightarrow> ProofOfStake \<Rightarrow> error + string" where
  "select_validator uniform p =
     (if stakers p = [] then Inl NoStakers
      else
        (let total_stake = sum_list (map snd (stakers p));
             selection = uniform 0 (real_of_int total_stake)
         in case walk_stakers selection 0 (stakers p) of
              Some public_key \<Rightarrow> Inr public_key
            | None \<Rightarrow> Inr (last (map fst (stakers p)))))"

text \<open>
  \<^verbatim>\<open>calculate_reward\<close>: \<^verbatim>\<open>self.stakers.get(validator, 0)\<close>, an integer. \<^verbatim>\<open>stake / 100\<close> is the
  true division of two integers: the exact quotient rounded to a float, and
  \<^verbatim>\<open>OverflowError\<close> when that is not finite. \<^verbatim>\<open>base_reward * (...)\<close> multiplies the float
  by 2 (an integer that is a float as it is) and rounds again; a float product that
  overflows is an infinity, not an exception.
\<close>

definition calculate_reward :: "pylib \<Rightarrow> ProofOfStake \<Rightarrow> string \<Rightarrow> error + pyfloat" where
  "calculate_reward L p validator =
     (let stake = (case map_of (stakers p) validator of Some v \<Rightarrow> v | None \<Rightarrow> 0);
          base_reward = 2
      in case round_float L (rat_of_int stake / 100) of
           Fin x \<Rightarrow> Inr (round_float L (base_reward * x))
         | _ \<Rightarrow> Inl OverflowError)"

subsection \<open>A small library instance for concrete runs\<close>

text \<open>
  Concrete runs need concrete library functions. \<open>demo_lib\<close> has the identity as digest and
  a serialiser that writes \<open>0000\<close> once the nonce has reached 2 (\<open>ffff\<close> before), then the
  index, the nonce and the number of transactions in unary; so a search at difficulty 4
  ends at nonce 2. Its floats are the multiples of one eighth up to 1000 in magnitude:
  \<open>demo_round\<close> rounds to the nearest of them, and to an infinity beyond 1000.
\<close>

definition demo_round :: "rat \<Rightarrow> pyfloat" where
  "demo_round q =
     (if 1000 < q then PosInf else if q < - 1000 then NegInf
      else Fin (rat_of_int (round (q * 8)) / 8))"

definition demo_dumps :: "json \<Rightarrow> string" where
  "demo_dumps d =
     (case d of
        JDict kvs \<Rightarrow>
          (case (map_of kvs ''index'', map_of kvs ''nonce'', map_of kvs ''transactions'') of
             (Some (JInt i), Some (JInt n), Some (JList ts)) \<Rightarrow>
               (if 2 \<le> n then ''0000'' else ''ffff'') @ replicate (nat i) (CHR ''a'')
                 @ replicate (nat n) (CHR ''b'') @ replicate (length ts) (CHR ''c'')
           | _ \<Rightarrow> ''f'')
      | _ \<Rightarrow> ''f'')"

definition demo_lib :: pylib where
  "demo_lib =
     \<lparr>sha256_hexdigest = (\<lambda>s. s), json_dumps = demo_dumps,
      str_float = (\<lambda>t. if t = 1 then ''1.0'' else if t = 2 then ''2.0'' else ''0.0''),
      round_float = demo_round\<rparr>"

definition demo_cert :: "string \<Rightarrow> certificate" where
  "demo_cert tid = \<lparr>task_id = tid, user_address = ''Alice'', cert_timestamp = 1, signature = ''s''\<rparr>"

text \<open>A fresh chain with one pending transaction and the given pending certificates.\<close>

definition demo_chain :: "certificate list \<Rightarrow> VirtusWorkChain" where
  "demo_chain cs =
     fold add_task_certificate cs (add_transaction ''Alice'' ''Bob'' 50 (VirtusWorkChain_init demo_lib 0))"

definition four_certs :: "certificate list" where
  "four_certs = [demo_cert ''t0'', demo_cert ''t1'', demo_cert ''t2'', demo_cert ''t3'']"

definition six_certs :: "certificate list" where
  "six_certs = four_certs @ [demo_cert ''t4'', demo_cert ''t5'']"

text \<open>The block and the state that mining on \<open>demo_chain six_certs\<close> at time 1 gives.\<close>

definition demo_block1 :: block where
  "demo_block1 =
     \<lparr>index = 1, timestamp = 1,
      transactions = [\<lparr>tx_from = ''Alice'', tx_to = ''Bob'', amount = 50\<rparr>,
                      \<lparr>tx_from = ''network'', tx_to = ''miner1'', amount = 5\<rparr>],
      task_certificates = four_certs @ [demo_cert ''t4''],
      previous_hash = ''ffff'', nonce = 2, hash = ''0000abbcc''\<rparr>"

definition demo_mined :: VirtusWorkChain where
  "demo_mined =
     \<lparr>chain_blocks = [create_genesis_block demo_lib 0, demo_block1], difficulty = 4,
      pending_transactions = [], pending_task_certificates = [demo_cert ''t5''],
      min_task_certificates_per_block = 5, mining_reward = 5\<rparr>"

text \<open>A genesis block of the demo chain with a transaction added; the stored hash is left as it was.\<close>

definition tampered_genesis :: block where
  "tampered_genesis =
     (create_genesis_block demo_lib 0)
       \<lparr>transactions := [\<lparr>tx_from = ''network'', tx_to = ''Mallory'', amount = 1000\<rparr>]\<rparr>"

subsection \<open>A collision-free library instance\<close>

text \<open>
  A serialiser that loses nothing: \<open>json_encode\<close> numbers the JSON values one to one (a tag
  for the constructor, paired with the code of its argument), and \<open>exact_dumps\<close> writes
  that number in unary. The digest of \<open>exact_lib\<close> puts \<open>0000\<close> in front of its input, so
  it is one to one as well and every hash meets difficulty 4 at nonce 0.
\<close>

definition string_encode :: "string \<Rightarrow> nat" where
  "string_encode s = list_encode (map of_char s)"

definition rat_encode :: "rat \<Rightarrow> nat" where
  "rat_encode r = (case quotient_of r of (a, b) \<Rightarrow> prod_encode (int_encode a, int_encode b))"

primrec json_encode :: "json \<Rightarrow> nat" where
  "json_encode (JInt i) = prod_encode (0, int_encode i)"
| "json_encode (JFloat r) = prod_encode (1, rat_encode r)"
| "json_encode (JStr s) = prod_encode (2, string_encode s)"
| "json_encode (JList js) = prod_encode (3, list_encode (map json_encode js))"
| "json_encode (JDict kvs) =
     prod_encode (4, list_encode (map (\<lambda>(k, n). prod_encode (string_encode k, n))
                                    (map (map_prod id json_encode) kvs)))"

definition exact_dumps :: "json \<Rightarrow> string" where
  "exact_dumps d = replicate (json_encode d) (CHR ''1'')"

definition exact_lib :: pylib where
  "exact_lib =
     \<lparr>sha256_hexdigest = (\<lambda>s. ''0000'' @ s), json_dumps = exact_dumps,
      str_float = (\<lambda>t. replicate (rat_encode t) (CHR ''1'')), round_float = demo_round\<rparr>"

text \<open>
  The chain mined with \<open>exact_lib\<close> from the same pending transaction and certificates as
  \<open>demo_chain six_certs\<close>; then its block 1 with the amount of a transaction changed, and
  its genesis block with a transaction added, both with the stored hash left as it was.
\<close>

definition exact_chain :: VirtusWorkChain where
  "exact_chain =
     fold add_task_certificate six_certs
       (add_transaction ''Alice'' ''Bob'' 50 (VirtusWorkChain_init exact_lib 0))"

definition exact_block1 :: block where
  "exact_block1 =
     Block exact_lib 1 1
       [\<lparr>tx_from = ''Alice'', tx_to = ''Bob'', amount = 50\<rparr>,
        \<lparr>tx_from = ''network'', tx_to = ''miner1'', amount = 5\<rparr>]
       (four_certs @ [demo_cert ''t4''])
       (hash (create_genesis_block exact_lib 0))"

definition exact_mined :: VirtusWorkChain where
  "exact_mined =
     \<lparr>chain_blocks = [create_genesis_block exact_lib 0, exact_block1], difficulty = 4,
      pending_transactions = [], pending_task_certificates = [demo_cert ''t5''],
      min_task_certificates_per_block = 5, mining_reward = 5\<rparr>"

definition overpaid_block1 :: block where
  "overpaid_block1 =
     exact_block1\<lparr>transactions := [\<lparr>tx_from = ''Alice'', tx_to = ''Bob'', amount = 5000\<rparr>,
                                   \<lparr>tx_from = ''network'', tx_to = ''miner1'', amount = 5\<rparr>]\<rparr>"

definition minting_genesis :: block where
  "minting_genesis =
     (create_genesis_block exact_lib 0)
       \<lparr>transactions := [\<lparr>tx_from = ''network'', tx_to = ''Mallory'', amount = 1000\<rparr>]\<rparr>"

text \<open>A clock whose first reading is 1 and whose later readings are 2, and the ledger \<open>{A: 90, B: 10}\<close>.\<close>

definition demo_clock :: clock where
  "demo_clock n = (if n = 0 then 1 else 2)"

definition demo_stakers :: ProofOfStake where
  "demo_stakers = \<lparr>stakers = [(''A'', 90), (''B'', 10)], min_stake = 10\<rparr>"

section \<open>Properties\<close>

subsection \<open>Basic facts about blocks and the search\<close>

lemma replicate_numeral: "replicate (numeral k) x = x # replicate (pred_numeral k) x"
  by (simp add: numeral_eq_Suc)

lemma next_nonce_fields:
  "index (next_nonce L b) = index b" "timestamp (next_nonce L b) = timestamp b"
  "transactions (next_nonce L b) = transactions b"
  "task_certificates (next_nonce L b) = task_certificates b"
  "previous_hash (next_nonce L b) = previous_hash b"
  "nonce (next_nonce L b) = nonce b + 1"
  by (simp_all add: next_nonce_def Let_def)

lemma calculate_hash_hash_update: "calculate_hash L (b\<lparr>hash := h\<rparr>) = calculate_hash L b"
  by (simp add: calculate_hash_def)

lemma next_nonce_sealed: "hash (next_nonce L b) = calculate_hash L (next_nonce L b)"
  by (simp add: next_nonce_def Let_def calculate_hash_hash_update)

lemma Block_sealed: "hash (Block L now i txs cs p) = calculate_hash L (Block L now i txs cs p)"
  by (simp add: Block_def Let_def calculate_hash_def)

lemma Block_fields:
  "index (Block L now i txs cs p) = i" "timestamp (Block L now i txs cs p) = now"
  "transactions (Block L now i txs cs p) = txs"
  "task_certificates (Block L now i txs cs p) = cs"
  "previous_hash (Block L now i txs cs p) = p"
  "nonce (Block L now i txs cs p) = 0"
  by (simp_all add: Block_def Let_def)

lemma proof_of_work_found:
  assumes "take d (hash ((next_nonce L ^^ k) b)) = replicate d (CHR ''0'')"
    and "\<forall>j<k. take d (hash ((next_nonce L ^^ j) b)) \<noteq> replicate d (CHR ''0'')"
  shows "proof_of_work L d b = Some ((next_nonce L ^^ k) b)"
  using assms
proof (induction k arbitrary: b)
  case 0
  then show ?case by (subst proof_of_work.simps) simp
next
  case (Suc k)
  from Suc.prems(2) have first: "take d (hash b) \<noteq> replicate d (CHR ''0'')"
    by (metis funpow_0 zero_less_Suc)
  have later: "\<forall>j<k. take d (hash ((next_nonce L ^^ j) (next_nonce L b))) \<noteq> replicate d (CHR ''0'')"
  proof (intro allI impI)
    fix j assume "j < k"
    then have "Suc j < Suc k" by simp
    with Suc.prems(2) have "take d (hash ((next_nonce L ^^ Suc j) b)) \<noteq> replicate d (CHR ''0'')"
      by blast
    then show "take d (hash ((next_nonce L ^^ j) (next_nonce L b))) \<noteq> replicate d (CHR ''0'')"
      by (simp add: funpow_swap1)
  qed
  have "proof_of_work L d (next_nonce L b) = Some ((next_nonce L ^^ k) (next_nonce L b))"
    using Suc.prems(1) later by (intro Suc.IH) (simp_all add: funpow_swap1)
  then show ?case using first
    by (subst proof_of_work.simps) (simp add: funpow_swap1)
qed

lemma proof_of_work_Some:
  assumes "proof_of_work L d b = Some y"
  shows "\<exists>k. y = (next_nonce L ^^ k) b \<and> take d (hash y) = replicate d (CHR ''0'')
            \<and> (\<forall>j<k. take d (hash ((next_nonce L ^^ j) b)) \<noteq> replicate d (CHR ''0''))"
proof (rule proof_of_work.raw_induct
    [where P = "\<lambda>L d b y. \<exists>k. y = (next_nonce L ^^ k) b \<and> take d (hash y) = replicate d (CHR ''0'')
            \<and> (\<forall>j<k. take d (hash ((next_nonce L ^^ j) b)) \<noteq> replicate d (CHR ''0''))", OF _ assms])
  fix pow :: "pylib \<Rightarrow> nat \<Rightarrow> block \<Rightarrow> block option" and L d b y
  assume IH: "\<And>L d b y. pow L d b = Some y \<Longrightarrow>
     \<exists>k. y = (next_nonce L ^^ k) b \<and> take d (hash y) = replicate d (CHR ''0'')
            \<and> (\<forall>j<k. take d (hash ((next_nonce L ^^ j) b)) \<noteq> replicate d (CHR ''0''))"
    and eq: "(if take d (hash b) \<noteq> replicate d (CHR ''0'') then pow L d (next_nonce L b) else Some b) = Some y"
  show "\<exists>k. y = (next_nonce L ^^ k) b \<and> take d (hash y) = replicate d (CHR ''0'')
            \<and> (\<forall>j<k. take d (hash ((next_nonce L ^^ j) b)) \<noteq> replicate d (CHR ''0''))"
  proof (cases "take d (hash b) = replicate d (CHR ''0'')")
    case True
    with eq have "y = b" by simp
    with True show ?thesis by (intro exI[of _ 0]) simp
  next
    case False
    with eq have "pow L d (next_nonce L b) = Some y" by simp
    from IH[OF this] obtain k where k: "y = (next_nonce L ^^ k) (next_nonce L b)"
      "take d (hash y) = replicate d (CHR ''0'')"
      "\<forall>j<k. take d (hash ((next_nonce L ^^ j) (next_nonce L b))) \<noteq> replicate d (CHR ''0'')"
      by blast
    have "\<forall>j<Suc k. take d (hash ((next_nonce L ^^ j) b)) \<noteq> replicate d (CHR ''0'')"
    proof (intro allI impI)
      fix j assume j: "j < Suc k"
      show "take d (hash ((next_nonce L ^^ j) b)) \<noteq> replicate d (CHR ''0'')"
      proof (cases j)
        case 0
        with False show ?thesis by simp
      next
        case (Suc i)
        with j k(3) show ?thesis by (simp add: funpow_swap1)
      qed
    qed
    with k(1,2) show ?thesis by (intro exI[of _ "Suc k"]) (simp add: funpow_swap1)
  qed
qed

lemma funpow_next_nonce_fields:
  "index ((next_nonce L ^^ k) b) = index b \<and> timestamp ((next_nonce L ^^ k) b) = timestamp b
   \<and> transactions ((next_nonce L ^^ k) b) = transactions b
   \<and> task_certificates ((next_nonce L ^^ k) b) = task_certificates b
   \<and> previous_hash ((next_nonce L ^^ k) b) = previous_hash b
   \<and> nonce ((next_nonce L ^^ k) b) = nonce b + int k"
  by (induction k) (simp_all add: next_nonce_fields)

lemma funpow_next_nonce_sealed:
  "hash b = calculate_hash L b \<Longrightarrow> hash ((next_nonce L ^^ k) b) = calculate_hash L ((next_nonce L ^^ k) b)"
  by (cases k) (simp_all add: next_nonce_sealed)

lemma proof_of_work_terminates:
  assumes "\<exists>k. take d (hash ((next_nonce L ^^ k) b)) = replicate d (CHR ''0'')"
  shows "\<exists>k. proof_of_work L d b = Some ((next_nonce L ^^ k) b)
           \<and> take d (hash ((next_nonce L ^^ k) b)) = replicate d (CHR ''0'')"
proof -
  from assms obtain k where "take d (hash ((next_nonce L ^^ k) b)) = replicate d (CHR ''0'')"
    and "\<forall>j<k. take d (hash ((next_nonce L ^^ j) b)) \<noteq> replicate d (CHR ''0'')"
    using exists_least_iff[of "\<lambda>k. take d (hash ((next_nonce L ^^ k) b)) = replicate d (CHR ''0'')"]
    by blast
  then show ?thesis using proof_of_work_found by blast
qed

lemma proof_of_work_diverges:
  "proof_of_work L d b = None \<longleftrightarrow> (\<forall>k. take d (hash ((next_nonce L ^^ k) b)) \<noteq> replicate d (CHR ''0''))"
proof
  assume n: "proof_of_work L d b = None"
  show "\<forall>k. take d (hash ((next_nonce L ^^ k) b)) \<noteq> replicate d (CHR ''0'')"
  proof (rule ccontr)
    assume "\<not> ?thesis"
    then have "\<exists>k. take d (hash ((next_nonce L ^^ k) b)) = replicate d (CHR ''0'')" by simp
    from proof_of_work_terminates[OF this] n show False by simp
  qed
next
  assume a: "\<forall>k. take d (hash ((next_nonce L ^^ k) b)) \<noteq> replicate d (CHR ''0'')"
  show "proof_of_work L d b = None"
  proof (cases "proof_of_work L d b")
    case None then show ?thesis .
  next
    case (Some y)
    from proof_of_work_Some[OF this] a show ?thesis by blast
  qed
qed

lemma mine_block_enough:
  assumes enough: "min_task_certificates_per_block s \<le> length (pending_task_certificates s)"
    and ne: "chain_blocks s \<noteq> []"
  shows "mine_block L now miner_address s =
           (case proof_of_work L (difficulty s) (candidate_block L now miner_address s) of
              None \<Rightarrow> None
            | Some b \<Rightarrow>
                Some (Inr None,
                      s\<lparr>chain_blocks := chain_blocks s @ [b], pending_transactions := [],
                        pending_task_certificates :=
                          drop (min_task_certificates_per_block s) (pending_task_certificates s)\<rparr>))"
  using assms
  by (simp add: mine_block_def Let_def get_latest_block_def candidate_block_def
      split: option.splits)

lemma mine_block_returned:
  assumes "mine_block L now miner_address s = Some (Inr v, s')"
  shows "min_task_certificates_per_block s \<le> length (pending_task_certificates s)
       \<and> chain_blocks s \<noteq> [] \<and> v = None
       \<and> (\<exists>k. take (difficulty s) (hash ((next_nonce L ^^ k) (candidate_block L now miner_address s)))
                 = replicate (difficulty s) (CHR ''0'')
              \<and> s' = s\<lparr>chain_blocks := chain_blocks s @ [(next_nonce L ^^ k) (candidate_block L now miner_address s)],
                        pending_transactions := [],
                        pending_task_certificates :=
                          drop (min_task_certificates_per_block s) (pending_task_certificates s)\<rparr>)"
proof -
  have enough: "min_task_certificates_per_block s \<le> length (pending_task_certificates s)"
    using assms by (auto simp: mine_block_def Let_def split: if_splits)
  have ne: "chain_blocks s \<noteq> []"
    using assms enough by (auto simp: mine_block_def Let_def get_latest_block_def split: if_splits)
  from assms obtain b where b: "proof_of_work L (difficulty s) (candidate_block L now miner_address s) = Some b"
    and v: "v = None"
    and s': "s' = s\<lparr>chain_blocks := chain_blocks s @ [b], pending_transactions := [],
                        pending_task_certificates :=
                          drop (min_task_certificates_per_block s) (pending_task_certificates s)\<rparr>"
    unfolding mine_block_enough[OF enough ne] by (auto split: option.splits)
  from proof_of_work_Some[OF b] s' v enough ne show ?thesis by blast
qed

lemma candidate_block_fields:
  "index (candidate_block L now m s) = int (length (chain_blocks s))"
  "timestamp (candidate_block L now m s) = now"
  "transactions (candidate_block L now m s) = pending_transactions s @ [\<lparr>tx_from = ''network'', tx_to = m, amount = mining_reward s\<rparr>]"
  "task_certificates (candidate_block L now m s) = take (min_task_certificates_per_block s) (pending_task_certificates s)"
  "previous_hash (candidate_block L now m s) = hash (last (chain_blocks s))"
  "hash (candidate_block L now m s) = calculate_hash L (candidate_block L now m s)"
  by (simp_all add: candidate_block_def Block_fields Block_sealed)

lemma mine_block_error:
  assumes "mine_block L now miner_address s = Some (Inl e, s')"
  shows "(e = InsufficientCertificates \<and> length (pending_task_certificates s) < min_task_certificates_per_block s
          \<and> s' = s\<lparr>pending_transactions := pending_transactions s @ [\<lparr>tx_from = ''network'', tx_to = miner_address, amount = mining_reward s\<rparr>]\<rparr>)
       \<or> (e = IndexError \<and> chain_blocks s = []
          \<and> min_task_certificates_per_block s \<le> length (pending_task_certificates s))"
  using assms
  by (auto simp: mine_block_def Let_def get_latest_block_def split: if_splits option.splits)


lemma demo_calculate_hash:
  "calculate_hash demo_lib b =
     (if 2 \<le> nonce b then ''0000'' else ''ffff'') @ replicate (nat (index b)) (CHR ''a'')
       @ replicate (nat (nonce b)) (CHR ''b'') @ replicate (length (transactions b)) (CHR ''c'')"
  by (simp add: calculate_hash_def demo_lib_def demo_dumps_def)

lemma demo_genesis:
  "create_genesis_block demo_lib 0 =
     \<lparr>index = 0, timestamp = 0, transactions = [], task_certificates = [],
      previous_hash = ''0'', nonce = 0, hash = ''ffff''\<rparr>"
  by (simp add: create_genesis_block_def Block_def Let_def demo_calculate_hash)

lemma demo_chain_six:
  "demo_chain six_certs =
     \<lparr>chain_blocks = [create_genesis_block demo_lib 0], difficulty = 4,
      pending_transactions = [\<lparr>tx_from = ''Alice'', tx_to = ''Bob'', amount = 50\<rparr>],
      pending_task_certificates = six_certs,
      min_task_certificates_per_block = 5, mining_reward = 5\<rparr>"
  by (simp add: demo_chain_def six_certs_def four_certs_def add_task_certificate_def
      add_transaction_def VirtusWorkChain_init_def)

lemma demo_search:
  "proof_of_work demo_lib 4
     \<lparr>index = 1, timestamp = 1, transactions = [t1, t2], task_certificates = cs,
      previous_hash = p, nonce = 0, hash = ''ffffacc''\<rparr>
   = Some \<lparr>index = 1, timestamp = 1, transactions = [t1, t2], task_certificates = cs,
           previous_hash = p, nonce = 2, hash = ''0000abbcc''\<rparr>"
  apply (subst proof_of_work.simps)
  apply (simp add: replicate_numeral next_nonce_def Let_def demo_calculate_hash)
  apply (subst proof_of_work.simps)
  apply (simp add: replicate_numeral next_nonce_def Let_def demo_calculate_hash)
  apply (subst proof_of_work.simps)
  apply (simp add: replicate_numeral)
  done

lemma demo_mine:
  "mine_block demo_lib 1 ''miner1'' (demo_chain six_certs) = Some (Inr None, demo_mined)"
  unfolding demo_chain_six
  by (simp add: mine_block_def Let_def get_latest_block_def demo_genesis
      Block_def demo_calculate_hash six_certs_def four_certs_def demo_search demo_mined_def
      demo_block1_def)


lemma mine_block_error_frame:
  assumes "mine_block L now miner_address s = Some (Inl e, s')"
  shows "chain_blocks s' = chain_blocks s
       \<and> min_task_certificates_per_block s' = min_task_certificates_per_block s"
  using assms
  by (auto simp: mine_block_def Let_def get_latest_block_def split: if_splits option.splits)

lemma mined_block_props:
  fixes L now m s k
  defines "b \<equiv> (next_nonce L ^^ k) (candidate_block L now m s)"
  shows "index b = int (length (chain_blocks s))"
    and "previous_hash b = hash (last (chain_blocks s))"
    and "task_certificates b = take (min_task_certificates_per_block s) (pending_task_certificates s)"
    and "transactions b = pending_transactions s @ [\<lparr>tx_from = ''network'', tx_to = m, amount = mining_reward s\<rparr>]"
    and "hash b = calculate_hash L b"
  unfolding b_def
  by (simp_all add: funpow_next_nonce_fields candidate_block_fields funpow_next_nonce_sealed)

lemma reachable_invariant:
  assumes "reachable L t0 s"
  shows "chain_blocks s \<noteq> []
       \<and> chain_blocks s ! 0 = create_genesis_block L t0
       \<and> (\<forall>i<length (chain_blocks s). index (chain_blocks s ! i) = int i)
       \<and> (\<forall>i. 1 \<le> i \<and> i < length (chain_blocks s) \<longrightarrow>
             hash (chain_blocks s ! i) = calculate_hash L (chain_blocks s ! i)
           \<and> previous_hash (chain_blocks s ! i) = hash (chain_blocks s ! (i - 1))
           \<and> min_task_certificates_per_block s \<le> length (task_certificates (chain_blocks s ! i)))"
  using assms
proof (induction rule: reachable.induct)
  case init
  show ?case
    by (simp add: VirtusWorkChain_init_def create_genesis_block_def Block_fields)
next
  case (transaction s sender recipient amt)
  then show ?case by (simp add: add_transaction_def)
next
  case (task_certificate s c)
  then show ?case by (simp add: add_task_certificate_def)
next
  case (mine s now miner_address r s')
  show ?case
  proof (cases r)
    case (Inl e)
    with mine.hyps(2) have "mine_block L now miner_address s = Some (Inl e, s')" by simp
    from mine_block_error_frame[OF this] mine.IH show ?thesis by simp
  next
    case (Inr v)
    with mine.hyps(2) have run: "mine_block L now miner_address s = Some (Inr v, s')" by simp
    from mine_block_returned[OF run] obtain k where
      enough: "min_task_certificates_per_block s \<le> length (pending_task_certificates s)"
      and s': "s' = s\<lparr>chain_blocks := chain_blocks s @ [(next_nonce L ^^ k) (candidate_block L now miner_address s)],
                        pending_transactions := [],
                        pending_task_certificates :=
                          drop (min_task_certificates_per_block s) (pending_task_certificates s)\<rparr>"
      by blast
    let ?b = "(next_nonce L ^^ k) (candidate_block L now miner_address s)"
    let ?n = "length (chain_blocks s)"
    have ne: "chain_blocks s \<noteq> []" using mine.IH by simp
    have n0: "0 < ?n" using ne by simp
    have last_nth: "last (chain_blocks s) = chain_blocks s ! (?n - 1)"
      using ne by (simp add: last_conv_nth)
    have certs: "min_task_certificates_per_block s \<le> length (task_certificates ?b)"
      using enough by (simp add: mined_block_props)
    have c1: "chain_blocks s' \<noteq> []" by (simp add: s')
    have c2: "chain_blocks s' ! 0 = create_genesis_block L t0"
      using mine.IH n0 by (simp add: s' nth_append)
    have c3: "\<forall>i<length (chain_blocks s'). index (chain_blocks s' ! i) = int i"
    proof (intro allI impI)
      fix i assume "i < length (chain_blocks s')"
      then have "i < ?n \<or> i = ?n" by (auto simp: s')
      then show "index (chain_blocks s' ! i) = int i"
        using mine.IH by (auto simp: s' nth_append mined_block_props)
    qed
    have c4: "\<forall>i. 1 \<le> i \<and> i < length (chain_blocks s') \<longrightarrow>
             hash (chain_blocks s' ! i) = calculate_hash L (chain_blocks s' ! i)
           \<and> previous_hash (chain_blocks s' ! i) = hash (chain_blocks s' ! (i - 1))
           \<and> min_task_certificates_per_block s' \<le> length (task_certificates (chain_blocks s' ! i))"
    proof (intro allI impI)
      fix i assume i: "1 \<le> i \<and> i < length (chain_blocks s')"
      then have "i < ?n \<or> i = ?n" by (auto simp: s')
      then consider "i < ?n" | "i = ?n" by blast
      then show "hash (chain_blocks s' ! i) = calculate_hash L (chain_blocks s' ! i)
           \<and> previous_hash (chain_blocks s' ! i) = hash (chain_blocks s' ! (i - 1))
           \<and> min_task_certificates_per_block s' \<le> length (task_certificates (chain_blocks s' ! i))"
      proof cases
        case 1
        then have "i - 1 < ?n" by simp
        with 1 i mine.IH show ?thesis by (simp add: s' nth_append)
      next
        case 2
        have "hash ?b = calculate_hash L ?b" by (rule mined_block_props)
        moreover have "previous_hash ?b = hash (chain_blocks s ! (?n - 1))"
          by (simp add: mined_block_props last_nth)
        ultimately show ?thesis using 2 n0 certs by (simp add: s' nth_append)
      qed
    qed
    from c1 c2 c3 c4 show ?thesis by blast
  qed
qed

lemma check_blocks_Valid:
  "check_blocks L s js = Valid \<longleftrightarrow>
     (\<forall>i\<in>set js.
        hash (chain_blocks s ! i) = calculate_hash L (chain_blocks s ! i)
      \<and> previous_hash (chain_blocks s ! i) = hash (chain_blocks s ! (i - 1))
      \<and> min_task_certificates_per_block s \<le> length (task_certificates (chain_blocks s ! i)))"
  by (induction js) (auto simp: Let_def)


lemma demo_six_fields: "min_task_certificates_per_block (demo_chain six_certs) = 5"
    "pending_task_certificates (demo_chain six_certs) = six_certs"
    "chain_blocks (demo_chain six_certs) = [create_genesis_block demo_lib 0]"
    "difficulty (demo_chain six_certs) = 4"
    by (simp_all add: demo_chain_six)

lemma demo_candidate: "candidate_block demo_lib 1 ''miner1'' (demo_chain six_certs) =
     \<lparr>index = 1, timestamp = 1,
      transactions = [\<lparr>tx_from = ''Alice'', tx_to = ''Bob'', amount = 50\<rparr>,
                      \<lparr>tx_from = ''network'', tx_to = ''miner1'', amount = 5\<rparr>],
      task_certificates = take 5 six_certs,
      previous_hash = ''ffff'', nonce = 0, hash = ''ffffacc''\<rparr>"
    unfolding candidate_block_def demo_chain_six
    by (simp add: Block_def Let_def demo_calculate_hash demo_genesis)


lemma demo_found: "take (difficulty (demo_chain six_certs))
          (hash ((next_nonce demo_lib ^^ Suc (Suc 0)) (candidate_block demo_lib 1 ''miner1'' (demo_chain six_certs))))
        = replicate (difficulty (demo_chain six_certs)) (CHR ''0'')"
    unfolding demo_candidate demo_six_fields
    by (simp add: next_nonce_def Let_def demo_calculate_hash replicate_numeral)


lemma demo_four_short:
  "length (pending_task_certificates (demo_chain four_certs))
     < min_task_certificates_per_block (demo_chain four_certs)"
  by (simp add: demo_chain_def four_certs_def add_task_certificate_def add_transaction_def
      VirtusWorkChain_init_def)

subsection \<open>Mining with too few certificates\<close>

text \<open>
  C4. In every chain state with fewer than \<open>min_task_certificates_per_block\<close> pending
  certificates, \<^verbatim>\<open>mine_block\<close> raises the insufficient-certificates error; afterwards the
  block sequence and the pending certificates are as before, and the pending transactions
  have grown by exactly the reward transaction from \<open>network\<close> to the miner, at the end. The
  append is not undone: a second failed attempt leaves two reward entries.
\<close>

theorem mine_block_shortfall_frame:
  assumes "length (pending_task_certificates s) < min_task_certificates_per_block s"
  shows "\<exists>s' s''.
           mine_block L now miner_address s = Some (Inl InsufficientCertificates, s')
         \<and> chain_blocks s' = chain_blocks s
         \<and> pending_task_certificates s' = pending_task_certificates s
         \<and> pending_transactions s' = pending_transactions s @
              [\<lparr>tx_from = ''network'', tx_to = miner_address, amount = mining_reward s\<rparr>]
         \<and> mine_block L now' miner_address s' = Some (Inl InsufficientCertificates, s'')
         \<and> pending_transactions s'' = pending_transactions s @
              [\<lparr>tx_from = ''network'', tx_to = miner_address, amount = mining_reward s\<rparr>,
               \<lparr>tx_from = ''network'', tx_to = miner_address, amount = mining_reward s\<rparr>]"
  using assms by (simp add: mine_block_def Let_def)

theorem mine_block_shortfall_frame_witness:
  "length (pending_task_certificates (demo_chain four_certs))
     < min_task_certificates_per_block (demo_chain four_certs)
   \<and> (\<exists>s' s''.
         mine_block demo_lib 1 ''miner1'' (demo_chain four_certs)
           = Some (Inl InsufficientCertificates, s')
       \<and> chain_blocks s' = chain_blocks (demo_chain four_certs)
       \<and> pending_task_certificates s' = four_certs
       \<and> pending_transactions s' =
            [\<lparr>tx_from = ''Alice'', tx_to = ''Bob'', amount = 50\<rparr>,
             \<lparr>tx_from = ''network'', tx_to = ''miner1'', amount = 5\<rparr>]
       \<and> mine_block demo_lib 2 ''miner1'' s' = Some (Inl InsufficientCertificates, s'')
       \<and> pending_transactions s'' =
            [\<lparr>tx_from = ''Alice'', tx_to = ''Bob'', amount = 50\<rparr>,
             \<lparr>tx_from = ''network'', tx_to = ''miner1'', amount = 5\<rparr>,
             \<lparr>tx_from = ''network'', tx_to = ''miner1'', amount = 5\<rparr>])"
proof -
  have short: "length (pending_task_certificates (demo_chain four_certs))
     < min_task_certificates_per_block (demo_chain four_certs)"
    by (simp add: demo_chain_def four_certs_def add_task_certificate_def add_transaction_def
        VirtusWorkChain_init_def)
  have vals: "pending_task_certificates (demo_chain four_certs) = four_certs"
    "pending_transactions (demo_chain four_certs) = [\<lparr>tx_from = ''Alice'', tx_to = ''Bob'', amount = 50\<rparr>]"
    "mining_reward (demo_chain four_certs) = 5"
    by (simp_all add: demo_chain_def four_certs_def add_task_certificate_def add_transaction_def
        VirtusWorkChain_init_def)
  show ?thesis
    using short mine_block_shortfall_frame [OF short, of demo_lib 1 "''miner1''" 2]
    by (simp add: vals)
qed

subsection \<open>What a successful call of \<^verbatim>\<open>mine_block\<close> consumes\<close>

text \<open>
  C5. \<^verbatim>\<open>mine_block\<close> raises the insufficient-certificates error exactly when fewer than
  \<open>min_task_certificates_per_block\<close> certificates are pending. When it returns, the block it
  has appended holds exactly the first \<open>min_task_certificates_per_block\<close> pending
  certificates, in their order, and the rest of the queue is left behind in its order.
\<close>

theorem mine_block_consumes_first_certificates:
  "((\<exists>s'. mine_block L now miner_address s = Some (Inl InsufficientCertificates, s'))
      \<longleftrightarrow> length (pending_task_certificates s) < min_task_certificates_per_block s)
   \<and> (\<forall>v s'. mine_block L now miner_address s = Some (Inr v, s') \<longrightarrow>
         (\<exists>b. chain_blocks s' = chain_blocks s @ [b]
            \<and> task_certificates b
                = take (min_task_certificates_per_block s) (pending_task_certificates s)
            \<and> length (task_certificates b) = min_task_certificates_per_block s
            \<and> pending_task_certificates s'
                = drop (min_task_certificates_per_block s) (pending_task_certificates s)
            \<and> pending_task_certificates s = task_certificates b @ pending_task_certificates s'))"
proof (intro conjI allI impI)
  show "(\<exists>s'. mine_block L now miner_address s = Some (Inl InsufficientCertificates, s'))
      \<longleftrightarrow> length (pending_task_certificates s) < min_task_certificates_per_block s"
  proof
    assume "\<exists>s'. mine_block L now miner_address s = Some (Inl InsufficientCertificates, s')"
    then obtain s' where "mine_block L now miner_address s = Some (Inl InsufficientCertificates, s')"
      by blast
    from mine_block_error[OF this]
    show "length (pending_task_certificates s) < min_task_certificates_per_block s" by simp
  next
    assume "length (pending_task_certificates s) < min_task_certificates_per_block s"
    then show "\<exists>s'. mine_block L now miner_address s = Some (Inl InsufficientCertificates, s')"
      by (simp add: mine_block_def Let_def)
  qed
next
  fix v s'
  assume run: "mine_block L now miner_address s = Some (Inr v, s')"
  from mine_block_returned[OF run] obtain k where
    enough: "min_task_certificates_per_block s \<le> length (pending_task_certificates s)"
    and s': "s' = s\<lparr>chain_blocks := chain_blocks s @ [(next_nonce L ^^ k) (candidate_block L now miner_address s)],
                      pending_transactions := [],
                      pending_task_certificates :=
                        drop (min_task_certificates_per_block s) (pending_task_certificates s)\<rparr>"
    by blast
  let ?b = "(next_nonce L ^^ k) (candidate_block L now miner_address s)"
  have "task_certificates ?b = take (min_task_certificates_per_block s) (pending_task_certificates s)"
    by (rule mined_block_props)
  with enough s'
  show "\<exists>b. chain_blocks s' = chain_blocks s @ [b]
            \<and> task_certificates b
                = take (min_task_certificates_per_block s) (pending_task_certificates s)
            \<and> length (task_certificates b) = min_task_certificates_per_block s
            \<and> pending_task_certificates s'
                = drop (min_task_certificates_per_block s) (pending_task_certificates s)
            \<and> pending_task_certificates s = task_certificates b @ pending_task_certificates s'"
    by (intro exI[of _ ?b]) simp
qed

theorem mine_block_consumes_first_certificates_witness:
  "mine_block demo_lib 1 ''miner1'' (demo_chain six_certs) = Some (Inr None, demo_mined)
   \<and> \<not> length (pending_task_certificates (demo_chain six_certs))
         < min_task_certificates_per_block (demo_chain six_certs)
   \<and> (\<exists>b. chain_blocks demo_mined = chain_blocks (demo_chain six_certs) @ [b]
          \<and> task_certificates b = four_certs @ [demo_cert ''t4'']
          \<and> pending_task_certificates demo_mined = [demo_cert ''t5''])"
proof -
  have vals: "pending_task_certificates (demo_chain six_certs) = six_certs"
    "min_task_certificates_per_block (demo_chain six_certs) = 5"
    by (simp_all add: demo_chain_six)
  have split: "take 5 six_certs = four_certs @ [demo_cert ''t4'']" "drop 5 six_certs = [demo_cert ''t5'']"
    "length six_certs = 6"
    by (simp_all add: six_certs_def four_certs_def)
  from mine_block_consumes_first_certificates
         [of demo_lib 1 "''miner1''" "demo_chain six_certs", THEN conjunct2, rule_format, OF demo_mine]
  show ?thesis
    by (auto simp: demo_mine vals split)
qed

subsection \<open>The mined block is sealed and meets the difficulty\<close>

text \<open>
  C6. The block appended by a call of \<^verbatim>\<open>mine_block\<close> that returns has a stored hash equal
  to the hash recomputed from its six content fields, and that hash starts with
  \<open>difficulty\<close> characters \<open>0\<close>.
\<close>

theorem mined_block_sealed_and_difficult:
  assumes "mine_block L now miner_address s = Some (Inr v, s')"
  shows "\<exists>b. chain_blocks s' = chain_blocks s @ [b]
           \<and> hash b = calculate_hash L b
           \<and> take (difficulty s) (hash b) = replicate (difficulty s) (CHR ''0'')
           \<and> difficulty s \<le> length (hash b)"
proof -
  from mine_block_returned[OF assms] obtain k where
    ok: "take (difficulty s) (hash ((next_nonce L ^^ k) (candidate_block L now miner_address s)))
                 = replicate (difficulty s) (CHR ''0'')"
    and s': "s' = s\<lparr>chain_blocks := chain_blocks s @ [(next_nonce L ^^ k) (candidate_block L now miner_address s)],
                      pending_transactions := [],
                      pending_task_certificates :=
                        drop (min_task_certificates_per_block s) (pending_task_certificates s)\<rparr>"
    by blast
  let ?b = "(next_nonce L ^^ k) (candidate_block L now miner_address s)"
  have sealed: "hash ?b = calculate_hash L ?b" by (rule mined_block_props)
  have "length (take (difficulty s) (hash ?b)) = difficulty s"
    using ok by simp
  then have "difficulty s \<le> length (hash ?b)" by simp
  with ok s' sealed show ?thesis by (intro exI[of _ ?b]) simp
qed

theorem mined_block_sealed_and_difficult_witness:
  "mine_block demo_lib 1 ''miner1'' (demo_chain six_certs) = Some (Inr None, demo_mined)
   \<and> (\<exists>b. chain_blocks demo_mined = chain_blocks (demo_chain six_certs) @ [b]
          \<and> hash b = calculate_hash demo_lib b
          \<and> take 4 (hash b) = ''0000'' \<and> 4 \<le> length (hash b))"
proof -
  have vals: "difficulty (demo_chain six_certs) = 4" by (simp add: demo_chain_six)
  from mined_block_sealed_and_difficult [OF demo_mine]
  show ?thesis by (simp add: demo_mine vals replicate_numeral)
qed

subsection \<open>The outcome of \<^verbatim>\<open>mine_block\<close>\<close>

text \<open>
  C3, as the claim states it, fails: with enough certificates pending the call appends the
  sealed block but returns Python's \<^verbatim>\<open>None\<close>, not the block. In the run below six
  certificates are pending, the call returns \<open>Inr None\<close>, and the new block is only to be
  found at the end of the chain.
\<close>

theorem mine_block_returns_no_block_counterexample:
  "min_task_certificates_per_block (demo_chain six_certs)
      \<le> length (pending_task_certificates (demo_chain six_certs))
   \<and> mine_block demo_lib 1 ''miner1'' (demo_chain six_certs) = Some (Inr None, demo_mined)
   \<and> last (chain_blocks demo_mined) = demo_block1
   \<and> mine_block demo_lib 1 ''miner1'' (demo_chain six_certs) \<noteq> Some (Inr (Some demo_block1), demo_mined)"
proof -
  have "pending_task_certificates (demo_chain six_certs) = six_certs"
    "min_task_certificates_per_block (demo_chain six_certs) = 5"
    by (simp_all add: demo_chain_six)
  moreover have "length six_certs = 6" by (simp add: six_certs_def four_certs_def)
  ultimately show ?thesis by (simp add: demo_mine demo_mined_def)
qed

text \<open>
  C3, amended. In a state with a non-empty chain and at least
  \<open>min_task_certificates_per_block\<close> pending certificates, if some nonce gives the
  candidate block a hash with \<open>difficulty\<close> leading zeros, then \<^verbatim>\<open>mine_block\<close> returns
  \<^verbatim>\<open>None\<close> and leaves the sealed block appended (it is then the latest block), with the
  next index, the hash of the previous latest block, all pending transactions and the
  reward, and the first pending certificates; both queues are drained accordingly. With
  fewer certificates pending it raises the insufficient-certificates error.
\<close>

theorem mine_block_outcome:
  "(min_task_certificates_per_block s \<le> length (pending_task_certificates s)
      \<and> chain_blocks s \<noteq> []
      \<and> (\<exists>k. take (difficulty s) (hash ((next_nonce L ^^ k) (candidate_block L now miner_address s)))
                = replicate (difficulty s) (CHR ''0''))
     \<longrightarrow> (\<exists>b s'. mine_block L now miner_address s = Some (Inr None, s')
              \<and> s' = s\<lparr>chain_blocks := chain_blocks s @ [b], pending_transactions := [],
                        pending_task_certificates :=
                          drop (min_task_certificates_per_block s) (pending_task_certificates s)\<rparr>
              \<and> get_latest_block s' = Inr b
              \<and> hash b = calculate_hash L b
              \<and> index b = int (length (chain_blocks s))
              \<and> previous_hash b = hash (last (chain_blocks s))
              \<and> transactions b = pending_transactions s @
                   [\<lparr>tx_from = ''network'', tx_to = miner_address, amount = mining_reward s\<rparr>]
              \<and> task_certificates b
                   = take (min_task_certificates_per_block s) (pending_task_certificates s)))
   \<and> (length (pending_task_certificates s) < min_task_certificates_per_block s
     \<longrightarrow> (\<exists>s'. mine_block L now miner_address s = Some (Inl InsufficientCertificates, s')))"
proof (intro conjI impI)
  assume a: "min_task_certificates_per_block s \<le> length (pending_task_certificates s)
      \<and> chain_blocks s \<noteq> []
      \<and> (\<exists>k. take (difficulty s) (hash ((next_nonce L ^^ k) (candidate_block L now miner_address s)))
                = replicate (difficulty s) (CHR ''0''))"
  then have enough: "min_task_certificates_per_block s \<le> length (pending_task_certificates s)"
    and ne: "chain_blocks s \<noteq> []"
    and ex: "\<exists>k. take (difficulty s) (hash ((next_nonce L ^^ k) (candidate_block L now miner_address s)))
                = replicate (difficulty s) (CHR ''0'')"
    by simp_all
  from proof_of_work_terminates[OF ex] obtain k where
    pow: "proof_of_work L (difficulty s) (candidate_block L now miner_address s)
            = Some ((next_nonce L ^^ k) (candidate_block L now miner_address s))"
    by blast
  let ?b = "(next_nonce L ^^ k) (candidate_block L now miner_address s)"
  let ?s' = "s\<lparr>chain_blocks := chain_blocks s @ [?b], pending_transactions := [],
                        pending_task_certificates :=
                          drop (min_task_certificates_per_block s) (pending_task_certificates s)\<rparr>"
  have run: "mine_block L now miner_address s = Some (Inr None, ?s')"
    by (simp add: mine_block_enough[OF enough ne] pow)
  have latest: "get_latest_block ?s' = Inr ?b" by (simp add: get_latest_block_def)
  show "\<exists>b s'. mine_block L now miner_address s = Some (Inr None, s')
              \<and> s' = s\<lparr>chain_blocks := chain_blocks s @ [b], pending_transactions := [],
                        pending_task_certificates :=
                          drop (min_task_certificates_per_block s) (pending_task_certificates s)\<rparr>
              \<and> get_latest_block s' = Inr b
              \<and> hash b = calculate_hash L b
              \<and> index b = int (length (chain_blocks s))
              \<and> previous_hash b = hash (last (chain_blocks s))
              \<and> transactions b = pending_transactions s @
                   [\<lparr>tx_from = ''network'', tx_to = miner_address, amount = mining_reward s\<rparr>]
              \<and> task_certificates b
                   = take (min_task_certificates_per_block s) (pending_task_certificates s)"
    apply (rule exI[of _ ?b], rule exI[of _ ?s'])
    apply (intro conjI)
           apply (rule run)
          apply (rule refl)
         apply (rule latest)
        apply (rule mined_block_props)+
    done
next
  assume "length (pending_task_certificates s) < min_task_certificates_per_block s"
  then show "\<exists>s'. mine_block L now miner_address s = Some (Inl InsufficientCertificates, s')"
    by (simp add: mine_block_def Let_def)
qed

theorem mine_block_outcome_witness:
  "min_task_certificates_per_block (demo_chain six_certs)
      \<le> length (pending_task_certificates (demo_chain six_certs))
   \<and> chain_blocks (demo_chain six_certs) \<noteq> []
   \<and> mine_block demo_lib 1 ''miner1'' (demo_chain six_certs) = Some (Inr None, demo_mined)
   \<and> get_latest_block demo_mined = Inr demo_block1
   \<and> hash demo_block1 = calculate_hash demo_lib demo_block1
   \<and> length (pending_task_certificates (demo_chain four_certs))
        < min_task_certificates_per_block (demo_chain four_certs)
   \<and> (\<exists>s'. mine_block demo_lib 1 ''miner1'' (demo_chain four_certs)
              = Some (Inl InsufficientCertificates, s'))"
proof -
  have len: "length six_certs = 6" by (simp add: six_certs_def four_certs_def)
  have h1: "min_task_certificates_per_block (demo_chain six_certs)
      \<le> length (pending_task_certificates (demo_chain six_certs))"
    by (simp add: demo_six_fields len)
  have h2: "chain_blocks (demo_chain six_certs) \<noteq> []" by (simp add: demo_six_fields)
  have h3: "\<exists>k. take (difficulty (demo_chain six_certs))
          (hash ((next_nonce demo_lib ^^ k) (candidate_block demo_lib 1 ''miner1'' (demo_chain six_certs))))
        = replicate (difficulty (demo_chain six_certs)) (CHR ''0'')"
    by (rule exI [where x = "Suc (Suc 0)"]) (rule demo_found)
  have latest: "get_latest_block demo_mined = Inr demo_block1"
    by (simp add: get_latest_block_def demo_mined_def)
  have ok: "\<exists>b s'. mine_block demo_lib 1 ''miner1'' (demo_chain six_certs) = Some (Inr None, s')
       \<and> s' = (demo_chain six_certs)\<lparr>chain_blocks := chain_blocks (demo_chain six_certs) @ [b],
                 pending_transactions := [],
                 pending_task_certificates :=
                   drop (min_task_certificates_per_block (demo_chain six_certs))
                     (pending_task_certificates (demo_chain six_certs))\<rparr>
       \<and> get_latest_block s' = Inr b
       \<and> hash b = calculate_hash demo_lib b
       \<and> index b = int (length (chain_blocks (demo_chain six_certs)))
       \<and> previous_hash b = hash (last (chain_blocks (demo_chain six_certs)))
       \<and> transactions b = pending_transactions (demo_chain six_certs) @
            [\<lparr>tx_from = ''network'', tx_to = ''miner1'', amount = mining_reward (demo_chain six_certs)\<rparr>]
       \<and> task_certificates b
            = take (min_task_certificates_per_block (demo_chain six_certs))
                (pending_task_certificates (demo_chain six_certs))"
    by (rule mine_block_outcome [of "demo_chain six_certs" demo_lib 1 "''miner1''",
          THEN conjunct1, THEN mp, OF conjI [OF h1 conjI [OF h2 h3]]])
  let ?P = "\<lambda>b s'. mine_block demo_lib 1 ''miner1'' (demo_chain six_certs) = Some (Inr None, s')
       \<and> s' = (demo_chain six_certs)\<lparr>chain_blocks := chain_blocks (demo_chain six_certs) @ [b],
                 pending_transactions := [],
                 pending_task_certificates :=
                   drop (min_task_certificates_per_block (demo_chain six_certs))
                     (pending_task_certificates (demo_chain six_certs))\<rparr>
       \<and> get_latest_block s' = Inr b
       \<and> hash b = calculate_hash demo_lib b
       \<and> index b = int (length (chain_blocks (demo_chain six_certs)))
       \<and> previous_hash b = hash (last (chain_blocks (demo_chain six_certs)))
       \<and> transactions b = pending_transactions (demo_chain six_certs) @
            [\<lparr>tx_from = ''network'', tx_to = ''miner1'', amount = mining_reward (demo_chain six_certs)\<rparr>]
       \<and> task_certificates b
            = take (min_task_certificates_per_block (demo_chain six_certs))
                (pending_task_certificates (demo_chain six_certs))"
  from ok obtain b where "\<exists>s'. ?P b s'" ..
  then obtain s' where all: "?P b s'" ..
  note run = all [THEN conjunct1]
  note lt = all [THEN conjunct2, THEN conjunct2, THEN conjunct1]
  note sealed = all [THEN conjunct2, THEN conjunct2, THEN conjunct2, THEN conjunct1]
  from run have "Some (Inr None :: error + block option, s') = Some (Inr None, demo_mined)"
    by (simp only: demo_mine)
  then have s': "s' = demo_mined" by simp
  from lt have "Inr b = (Inr demo_block1 :: error + block)" by (simp only: s' latest)
  then have b: "b = demo_block1" by simp
  have sealed1: "hash demo_block1 = calculate_hash demo_lib demo_block1"
    using sealed by (simp only: b)
  have fail: "\<exists>s'. mine_block demo_lib 1 ''miner1'' (demo_chain four_certs)
              = Some (Inl InsufficientCertificates, s')"
    by (rule mine_block_outcome [of "demo_chain four_certs" demo_lib 1 "''miner1''",
          THEN conjunct2, THEN mp, OF demo_four_short])
  show ?thesis
    apply (intro conjI)
          apply (rule h1)
         apply (rule h2)
        apply (rule demo_mine)
       apply (rule latest)
      apply (rule sealed1)
     apply (rule demo_four_short)
    apply (rule fail)
    done
qed

subsection \<open>Reachable chains\<close>

lemma reachable_fold_certificates:
  "reachable L t0 s \<Longrightarrow> reachable L t0 (fold add_task_certificate cs s)"
  by (induction cs arbitrary: s) (simp_all add: reachable.task_certificate)

lemma demo_chain_reachable: "reachable demo_lib 0 (demo_chain cs)"
  unfolding demo_chain_def
  by (intro reachable_fold_certificates reachable.transaction reachable.init)

lemma demo_mined_reachable: "reachable demo_lib 0 demo_mined"
  by (rule reachable.mine[OF demo_chain_reachable demo_mine])

text \<open>
  C7. Every chain reached from the constructor by calls of \<^verbatim>\<open>add_transaction\<close>,
  \<^verbatim>\<open>add_task_certificate\<close> and \<^verbatim>\<open>mine_block\<close> passes \<^verbatim>\<open>is_chain_valid\<close>; the chain of the
  genesis block alone does.
\<close>

theorem reachable_chain_valid:
  assumes "reachable L t0 s"
  shows "is_chain_valid L s"
proof -
  from reachable_invariant[OF assms] show ?thesis
    unfolding is_chain_valid_def chain_verdict_def check_blocks_Valid by simp
qed

theorem reachable_chain_valid_witness:
  "reachable demo_lib 0 demo_mined \<and> length (chain_blocks demo_mined) = 2
   \<and> is_chain_valid demo_lib demo_mined
   \<and> reachable demo_lib 0 (VirtusWorkChain_init demo_lib 0)
   \<and> is_chain_valid demo_lib (VirtusWorkChain_init demo_lib 0)"
proof -
  have len: "length (chain_blocks demo_mined) = 2" by (simp add: demo_mined_def)
  have r0: "reachable demo_lib 0 (VirtusWorkChain_init demo_lib 0)" by (rule reachable.init)
  from reachable_chain_valid [OF demo_mined_reachable] reachable_chain_valid [OF r0]
    demo_mined_reachable len r0
  show ?thesis by blast
qed

text \<open>
  C10. In every reachable state the chain is not empty, the block at position \<open>i\<close> has
  index \<open>i\<close>, block 0 is the genesis block as the constructor built it (index 0, no
  transactions, no certificates, previous hash \<open>0\<close>), and every later block stores the
  hash of the block before it as its previous hash.
\<close>

theorem reachable_chain_well_formed:
  assumes "reachable L t0 s"
  shows "chain_blocks s \<noteq> []
       \<and> (\<forall>i<length (chain_blocks s). index (chain_blocks s ! i) = int i)
       \<and> chain_blocks s ! 0 = create_genesis_block L t0
       \<and> index (chain_blocks s ! 0) = 0
       \<and> transactions (chain_blocks s ! 0) = []
       \<and> task_certificates (chain_blocks s ! 0) = []
       \<and> previous_hash (chain_blocks s ! 0) = ''0''
       \<and> (\<forall>i. 1 \<le> i \<and> i < length (chain_blocks s) \<longrightarrow>
             previous_hash (chain_blocks s ! i) = hash (chain_blocks s ! (i - 1)))"
proof -
  from reachable_invariant[OF assms]
  have inv: "chain_blocks s \<noteq> []" "chain_blocks s ! 0 = create_genesis_block L t0"
    "\<forall>i<length (chain_blocks s). index (chain_blocks s ! i) = int i"
    "\<forall>i. 1 \<le> i \<and> i < length (chain_blocks s) \<longrightarrow>
             previous_hash (chain_blocks s ! i) = hash (chain_blocks s ! (i - 1))"
    by simp_all
  have gen: "index (create_genesis_block L t0) = 0" "transactions (create_genesis_block L t0) = []"
    "task_certificates (create_genesis_block L t0) = []" "previous_hash (create_genesis_block L t0) = ''0''"
    by (simp_all add: create_genesis_block_def Block_fields)
  from inv gen show ?thesis by simp
qed

theorem reachable_chain_well_formed_witness:
  "reachable demo_lib 0 demo_mined
   \<and> chain_blocks demo_mined = [create_genesis_block demo_lib 0, demo_block1]
   \<and> index (create_genesis_block demo_lib 0) = 0 \<and> index demo_block1 = 1
   \<and> previous_hash (create_genesis_block demo_lib 0) = ''0''
   \<and> previous_hash demo_block1 = hash (create_genesis_block demo_lib 0)"
proof -
  have c: "chain_blocks demo_mined = [create_genesis_block demo_lib 0, demo_block1]"
    by (simp add: demo_mined_def)
  from reachable_chain_well_formed [OF demo_mined_reachable]
  have wf: "index (chain_blocks demo_mined ! 0) = 0"
    "previous_hash (chain_blocks demo_mined ! 0) = ''0''"
    "\<forall>i<length (chain_blocks demo_mined). index (chain_blocks demo_mined ! i) = int i"
    "\<forall>i. 1 \<le> i \<and> i < length (chain_blocks demo_mined) \<longrightarrow>
             previous_hash (chain_blocks demo_mined ! i) = hash (chain_blocks demo_mined ! (i - 1))"
    by blast+
  from wf(1,2) have g: "index (create_genesis_block demo_lib 0) = 0"
    "previous_hash (create_genesis_block demo_lib 0) = ''0''"
    by (simp_all add: c)
  from wf(3)[rule_format, of 1] have i1: "index demo_block1 = 1" by (simp add: c)
  from wf(4)[rule_format, of 1]
  have l1: "previous_hash demo_block1 = hash (create_genesis_block demo_lib 0)" by (simp add: c)
  from c demo_mined_reachable g i1 l1 show ?thesis by blast
qed

subsection \<open>Tampering with a sealed block\<close>

lemma check_blocks_append:
  "check_blocks L s (xs @ ys) =
     (if check_blocks L s xs = Valid then check_blocks L s ys else check_blocks L s xs)"
  by (induction xs) (simp_all add: Let_def)

lemma check_blocks_cong:
  assumes "min_task_certificates_per_block s = min_task_certificates_per_block s'"
    and "\<forall>j\<in>set js. chain_blocks s ! j = chain_blocks s' ! j
            \<and> chain_blocks s ! (j - 1) = chain_blocks s' ! (j - 1)"
  shows "check_blocks L s js = check_blocks L s' js"
  using assms by (induction js) (simp_all add: Let_def)

lemma demo_mined_valid: "is_chain_valid demo_lib demo_mined"
  using reachable_invariant[OF demo_mined_reachable]
  unfolding is_chain_valid_def chain_verdict_def check_blocks_Valid by simp

lemma demo_mined_chain: "chain_blocks demo_mined = [create_genesis_block demo_lib 0, demo_block1]"
  by (simp add: demo_mined_def)

text \<open>
  C1, as the claim states it, fails for the block at index 0: the loop of \<^verbatim>\<open>is_chain_valid\<close>
  starts at index 1 and never recomputes the hash of the genesis block. Below, a
  transaction is added to the genesis block of a valid two-block chain; the stored hash is
  kept and no longer matches the content, and the chain still validates.
\<close>

theorem tampered_genesis_counterexample:
  "is_chain_valid demo_lib demo_mined
   \<and> chain_blocks demo_mined ! 0 = create_genesis_block demo_lib 0
   \<and> transactions tampered_genesis \<noteq> transactions (create_genesis_block demo_lib 0)
   \<and> hash tampered_genesis = hash (create_genesis_block demo_lib 0)
   \<and> calculate_hash demo_lib tampered_genesis \<noteq> hash tampered_genesis
   \<and> is_chain_valid demo_lib
        (demo_mined\<lparr>chain_blocks := (chain_blocks demo_mined)[0 := tampered_genesis]\<rparr>)"
proof -
  have g: "tampered_genesis =
     \<lparr>index = 0, timestamp = 0,
      transactions = [\<lparr>tx_from = ''network'', tx_to = ''Mallory'', amount = 1000\<rparr>],
      task_certificates = [], previous_hash = ''0'', nonce = 0, hash = ''ffff''\<rparr>"
    by (simp add: tampered_genesis_def demo_genesis)
  have c: "(chain_blocks demo_mined)[0 := tampered_genesis] = [tampered_genesis, demo_block1]"
    by (simp add: demo_mined_chain)
  have upt: "[1 ..< 2] = [1::nat]" by (simp add: upt_rec)
  have b1: "calculate_hash demo_lib demo_block1 = hash demo_block1"
    by (simp add: demo_block1_def demo_calculate_hash replicate_numeral)
  have v: "is_chain_valid demo_lib
        (demo_mined\<lparr>chain_blocks := (chain_blocks demo_mined)[0 := tampered_genesis]\<rparr>)"
    unfolding c
    by (simp add: is_chain_valid_def chain_verdict_def upt Let_def b1 demo_mined_def)
       (simp add: demo_block1_def g four_certs_def)
  have t: "transactions tampered_genesis \<noteq> transactions (create_genesis_block demo_lib 0)"
    by (simp add: g demo_genesis)
  have h: "hash tampered_genesis = hash (create_genesis_block demo_lib 0)"
    by (simp add: g demo_genesis)
  have st: "calculate_hash demo_lib tampered_genesis \<noteq> hash tampered_genesis"
    by (simp add: g demo_calculate_hash)
  have z: "chain_blocks demo_mined ! 0 = create_genesis_block demo_lib 0"
    by (simp add: demo_mined_chain)
  show ?thesis
    apply (intro conjI)
         apply (rule demo_mined_valid)
        apply (rule z)
       apply (rule t)
      apply (rule h)
     apply (rule st)
    apply (rule v)
    done
qed

text \<open>Under a digest and a serialiser that are one to one, equal hashes mean equal content.\<close>

lemma string_encode_eq: "string_encode s = string_encode t \<longleftrightarrow> s = t"
  by (simp add: string_encode_def list_encode_eq inj_map_eq_map[OF inj_of_char])

lemma rat_encode_eq: "rat_encode r = rat_encode q \<longleftrightarrow> r = q"
  by (auto simp: rat_encode_def int_encode_eq quotient_of_inject split: prod.splits)

lemma json_encode_eq: "json_encode x = json_encode y \<Longrightarrow> x = y"
proof (induction x arbitrary: y)
  case (JInt i)
  then show ?case by (cases y) (simp_all add: int_encode_eq)
next
  case (JFloat r)
  then show ?case by (cases y) (simp_all add: rat_encode_eq)
next
  case (JStr s)
  then show ?case by (cases y) (simp_all add: string_encode_eq)
next
  case (JList js)
  show ?case
  proof (cases y)
    case (JList js')
    with JList.prems have "map json_encode js = map json_encode js'"
      by (simp add: list_encode_eq)
    then have "js = js'"
      using JList.IH by (intro list.inj_map_strong[of js js' json_encode json_encode]) auto
    with JList show ?thesis by simp
  qed (use JList.prems in simp_all)
next
  case (JDict kvs)
  show ?case
  proof (cases y)
    case (JDict kvs')
    let ?f = "\<lambda>kv. prod_encode (string_encode (fst kv), json_encode (snd kv))"
    from JDict JDict.prems have "map ?f kvs = map ?f kvs'"
      by (simp add: list_encode_eq case_prod_beta o_def)
    moreover have "\<And>z za. z \<in> set kvs \<Longrightarrow> za \<in> set kvs' \<Longrightarrow> ?f z = ?f za \<Longrightarrow> z = za"
    proof -
      fix z za assume z: "z \<in> set kvs" and eq: "?f z = ?f za"
      then have k: "fst z = fst za" and v: "json_encode (snd z) = json_encode (snd za)"
        by (simp_all add: string_encode_eq)
      have "snd z \<in> Basic_BNFs.snds z" by (cases z) simp
      from JDict.IH[OF z this v] k show "z = za" by (simp add: prod_eq_iff)
    qed
    ultimately have "kvs = kvs'"
      by (intro list.inj_map_strong[of kvs kvs' ?f ?f]) auto
    with JDict show ?thesis by simp
  qed (use JDict.prems in simp_all)
qed

lemma transaction_json_eq: "transaction_json t = transaction_json t' \<longleftrightarrow> t = t'"
  by (auto simp: transaction_json_def)

lemma certificate_json_eq: "certificate_json c = certificate_json c' \<longleftrightarrow> c = c'"
  by (auto simp: certificate_json_def)

lemma calculate_hash_eq_fields:
  assumes "inj (sha256_hexdigest L)" and "inj (json_dumps L)"
    and "calculate_hash L b = calculate_hash L b'"
  shows "index b = index b' \<and> timestamp b = timestamp b' \<and> transactions b = transactions b'
       \<and> task_certificates b = task_certificates b' \<and> previous_hash b = previous_hash b'
       \<and> nonce b = nonce b'"
proof -
  have tx: "inj transaction_json" by (rule injI) (simp add: transaction_json_eq)
  have ce: "inj certificate_json" by (rule injI) (simp add: certificate_json_eq)
  from assms(3) have "json_dumps L (JDict
       [(''index'', JInt (index b)),
        (''timestamp'', JFloat (timestamp b)),
        (''transactions'', JList (map transaction_json (transactions b))),
        (''task_certificates'', JList (map certificate_json (task_certificates b))),
        (''previous_hash'', JStr (previous_hash b)),
        (''nonce'', JInt (nonce b))])
    = json_dumps L (JDict
       [(''index'', JInt (index b')),
        (''timestamp'', JFloat (timestamp b')),
        (''transactions'', JList (map transaction_json (transactions b'))),
        (''task_certificates'', JList (map certificate_json (task_certificates b'))),
        (''previous_hash'', JStr (previous_hash b')),
        (''nonce'', JInt (nonce b'))])"
    unfolding calculate_hash_def using assms(1) by (simp add: inj_eq)
  with assms(2) show ?thesis
    by (simp add: inj_eq inj_map_eq_map[OF tx] inj_map_eq_map[OF ce])
qed

lemma exact_lib_inj: "inj (sha256_hexdigest exact_lib)" "inj (json_dumps exact_lib)"
proof -
  show "inj (sha256_hexdigest exact_lib)"
    by (rule injI) (simp add: exact_lib_def)
  show "inj (json_dumps exact_lib)"
  proof (rule injI)
    fix x y assume "json_dumps exact_lib x = json_dumps exact_lib y"
    then have "length (replicate (json_encode x) (CHR ''1'')) = length (replicate (json_encode y) (CHR ''1''))"
      by (simp add: exact_lib_def exact_dumps_def)
    then have "json_encode x = json_encode y" by simp
    then show "x = y" by (rule json_encode_eq)
  qed
qed

lemma exact_hash_prefix: "take 4 (calculate_hash exact_lib b) = ''0000''"
  by (simp add: calculate_hash_def exact_lib_def)

lemma exact_chain_fields:
  "exact_chain =
     \<lparr>chain_blocks = [create_genesis_block exact_lib 0], difficulty = 4,
      pending_transactions = [\<lparr>tx_from = ''Alice'', tx_to = ''Bob'', amount = 50\<rparr>],
      pending_task_certificates = six_certs,
      min_task_certificates_per_block = 5, mining_reward = 5\<rparr>"
  by (simp add: exact_chain_def six_certs_def four_certs_def add_task_certificate_def
      add_transaction_def VirtusWorkChain_init_def)

lemma exact_mine:
  "mine_block exact_lib 1 ''miner1'' exact_chain = Some (Inr None, exact_mined)"
proof -
  have len: "length six_certs = 6" and tk: "take 5 six_certs = four_certs @ [demo_cert ''t4'']"
    and dr: "drop 5 six_certs = [demo_cert ''t5'']"
    by (simp_all add: six_certs_def four_certs_def)
  have cand: "candidate_block exact_lib 1 ''miner1'' exact_chain = exact_block1"
    unfolding exact_chain_fields by (simp add: candidate_block_def exact_block1_def tk)
  have "take 4 (hash exact_block1) = replicate 4 (CHR ''0'')"
    unfolding exact_block1_def Block_sealed by (simp add: exact_hash_prefix replicate_numeral)
  then have pow: "proof_of_work exact_lib 4 exact_block1 = Some exact_block1"
    by (subst proof_of_work.simps) simp
  have enough: "min_task_certificates_per_block exact_chain \<le> length (pending_task_certificates exact_chain)"
    by (simp add: exact_chain_fields len)
  have ne: "chain_blocks exact_chain \<noteq> []" by (simp add: exact_chain_fields)
  have d: "difficulty exact_chain = 4" by (simp add: exact_chain_fields)
  show ?thesis
    unfolding mine_block_enough[OF enough ne] cand d pow
    by (simp add: exact_chain_fields exact_mined_def dr)
qed

lemma exact_mined_reachable: "reachable exact_lib 0 exact_mined"
proof -
  have "reachable exact_lib 0 exact_chain"
    unfolding exact_chain_def
    by (intro reachable_fold_certificates reachable.transaction reachable.init)
  then show ?thesis by (rule reachable.mine[OF _ exact_mine])
qed

lemma exact_mined_valid: "is_chain_valid exact_lib exact_mined"
  using reachable_invariant[OF exact_mined_reachable]
  unfolding is_chain_valid_def chain_verdict_def check_blocks_Valid by simp

lemma check_blocks_cong_hash:
  assumes "min_task_certificates_per_block s = min_task_certificates_per_block s'"
    and "\<forall>j\<in>set js. chain_blocks s ! j = chain_blocks s' ! j
            \<and> hash (chain_blocks s ! (j - 1)) = hash (chain_blocks s' ! (j - 1))"
  shows "check_blocks L s js = check_blocks L s' js"
  using assms by (induction js) (simp_all add: Let_def)

lemma stale_block_rejected:
  assumes i1: "1 \<le> i" and il: "i < length (chain_blocks s)"
    and stale: "hash b' \<noteq> calculate_hash L b'"
  shows "\<not> is_chain_valid L (s\<lparr>chain_blocks := (chain_blocks s)[i := b']\<rparr>)"
    and "is_chain_valid L s \<Longrightarrow>
           chain_verdict L (s\<lparr>chain_blocks := (chain_blocks s)[i := b']\<rparr>) = Invalid_hash i"
proof -
  let ?s' = "s\<lparr>chain_blocks := (chain_blocks s)[i := b']\<rparr>"
  have at_i: "chain_blocks ?s' ! i = b'" using il by simp
  have mem: "i \<in> set [1 ..< length (chain_blocks ?s')]" using i1 il by simp
  show "\<not> is_chain_valid L ?s'"
    unfolding is_chain_valid_def chain_verdict_def check_blocks_Valid
    using mem stale at_i by metis
  assume "is_chain_valid L s"
  then have valid: "check_blocks L s [1 ..< length (chain_blocks s)] = Valid"
    by (simp add: is_chain_valid_def chain_verdict_def)
  have split: "[1 ..< length (chain_blocks s)] = [1 ..< i] @ i # [Suc i ..< length (chain_blocks s)]"
  proof -
    have "[1 ..< i + (length (chain_blocks s) - i)]
            = [1 ..< i] @ [i ..< i + (length (chain_blocks s) - i)]"
      using i1 by (rule upt_add_eq_append)
    moreover have "i + (length (chain_blocks s) - i) = length (chain_blocks s)" using il by simp
    ultimately have "[1 ..< length (chain_blocks s)] = [1 ..< i] @ [i ..< length (chain_blocks s)]"
      by simp
    then show ?thesis using il by (simp add: upt_conv_Cons)
  qed
  have "check_blocks L s [1 ..< i] = Valid"
    using valid unfolding split check_blocks_append by (simp split: if_splits)
  moreover have "check_blocks L ?s' [1 ..< i] = check_blocks L s [1 ..< i]"
    by (rule check_blocks_cong) auto
  ultimately have pre: "check_blocks L ?s' [1 ..< i] = Valid" by simp
  have "chain_verdict L ?s' = check_blocks L ?s' ([1 ..< i] @ i # [Suc i ..< length (chain_blocks s)])"
    unfolding chain_verdict_def using split by simp
  also have "\<dots> = check_blocks L ?s' (i # [Suc i ..< length (chain_blocks s)])"
    unfolding check_blocks_append using pre by simp
  also have "\<dots> = Invalid_hash i"
    using stale at_i by (simp add: Let_def)
  finally show "chain_verdict L ?s' = Invalid_hash i" .
qed

lemma genesis_not_checked:
  assumes "chain_blocks s \<noteq> []" and "hash b' = hash (chain_blocks s ! 0)"
  shows "chain_verdict L (s\<lparr>chain_blocks := (chain_blocks s)[0 := b']\<rparr>) = chain_verdict L s"
proof -
  let ?s' = "s\<lparr>chain_blocks := (chain_blocks s)[0 := b']\<rparr>"
  have "check_blocks L ?s' [1 ..< length (chain_blocks s)]
          = check_blocks L s [1 ..< length (chain_blocks s)]"
  proof (rule check_blocks_cong_hash)
    show "min_task_certificates_per_block ?s' = min_task_certificates_per_block s" by simp
    show "\<forall>j\<in>set [1 ..< length (chain_blocks s)].
            chain_blocks ?s' ! j = chain_blocks s ! j
          \<and> hash (chain_blocks ?s' ! (j - 1)) = hash (chain_blocks s ! (j - 1))"
    proof
      fix j assume "j \<in> set [1 ..< length (chain_blocks s)]"
      then have j: "1 \<le> j" "j < length (chain_blocks s)" by simp_all
      then have a: "chain_blocks ?s' ! j = chain_blocks s ! j" by simp
      have b: "hash (chain_blocks ?s' ! (j - 1)) = hash (chain_blocks s ! (j - 1))"
      proof (cases "j - 1 = 0")
        case True
        with assms show ?thesis by simp
      next
        case False
        then show ?thesis by simp
      qed
      from a b show "chain_blocks ?s' ! j = chain_blocks s ! j
          \<and> hash (chain_blocks ?s' ! (j - 1)) = hash (chain_blocks s ! (j - 1))" by simp
    qed
  qed
  then show ?thesis by (simp add: chain_verdict_def)
qed

text \<open>
  C1, amended. Let the digest and the serialiser be one to one. Take a block at an index
  \<open>i \<ge> 1\<close> of the chain whose stored hash is the hash of its content, and put in its place
  a block with the same stored hash that differs from it in any of the six hashed fields:
  index, timestamp, transactions, certificates, previous hash or nonce. Then
  \<^verbatim>\<open>is_chain_valid\<close> returns false, and on a chain that validated before, the failure is the
  invalid hash at index \<open>i\<close>. The block at index 0 is different: whatever replaces it, as
  long as the stored hash is kept, the verdict of \<^verbatim>\<open>is_chain_valid\<close> is what it was.
\<close>

theorem field_mutation_detected:
  "(1 \<le> i \<and> i < length (chain_blocks s)
      \<and> inj (sha256_hexdigest L) \<and> inj (json_dumps L)
      \<and> hash (chain_blocks s ! i) = calculate_hash L (chain_blocks s ! i)
      \<and> hash b' = hash (chain_blocks s ! i)
      \<and> (index b' \<noteq> index (chain_blocks s ! i)
          \<or> timestamp b' \<noteq> timestamp (chain_blocks s ! i)
          \<or> transactions b' \<noteq> transactions (chain_blocks s ! i)
          \<or> task_certificates b' \<noteq> task_certificates (chain_blocks s ! i)
          \<or> previous_hash b' \<noteq> previous_hash (chain_blocks s ! i)
          \<or> nonce b' \<noteq> nonce (chain_blocks s ! i))
     \<longrightarrow> \<not> is_chain_valid L (s\<lparr>chain_blocks := (chain_blocks s)[i := b']\<rparr>)
         \<and> (is_chain_valid L s \<longrightarrow>
               chain_verdict L (s\<lparr>chain_blocks := (chain_blocks s)[i := b']\<rparr>) = Invalid_hash i))
   \<and> (chain_blocks s \<noteq> [] \<and> hash g' = hash (chain_blocks s ! 0)
     \<longrightarrow> chain_verdict L (s\<lparr>chain_blocks := (chain_blocks s)[0 := g']\<rparr>) = chain_verdict L s)"
proof (intro conjI impI)
  assume a: "1 \<le> i \<and> i < length (chain_blocks s)
      \<and> inj (sha256_hexdigest L) \<and> inj (json_dumps L)
      \<and> hash (chain_blocks s ! i) = calculate_hash L (chain_blocks s ! i)
      \<and> hash b' = hash (chain_blocks s ! i)
      \<and> (index b' \<noteq> index (chain_blocks s ! i)
          \<or> timestamp b' \<noteq> timestamp (chain_blocks s ! i)
          \<or> transactions b' \<noteq> transactions (chain_blocks s ! i)
          \<or> task_certificates b' \<noteq> task_certificates (chain_blocks s ! i)
          \<or> previous_hash b' \<noteq> previous_hash (chain_blocks s ! i)
          \<or> nonce b' \<noteq> nonce (chain_blocks s ! i))"
  then have i1: "1 \<le> i" and il: "i < length (chain_blocks s)"
    and inj1: "inj (sha256_hexdigest L)" and inj2: "inj (json_dumps L)"
    and sealed: "hash (chain_blocks s ! i) = calculate_hash L (chain_blocks s ! i)"
    and kept: "hash b' = hash (chain_blocks s ! i)"
    and differ: "index b' \<noteq> index (chain_blocks s ! i)
          \<or> timestamp b' \<noteq> timestamp (chain_blocks s ! i)
          \<or> transactions b' \<noteq> transactions (chain_blocks s ! i)
          \<or> task_certificates b' \<noteq> task_certificates (chain_blocks s ! i)
          \<or> previous_hash b' \<noteq> previous_hash (chain_blocks s ! i)
          \<or> nonce b' \<noteq> nonce (chain_blocks s ! i)"
    by simp_all
  have "calculate_hash L b' \<noteq> calculate_hash L (chain_blocks s ! i)"
  proof
    assume "calculate_hash L b' = calculate_hash L (chain_blocks s ! i)"
    from calculate_hash_eq_fields[OF inj1 inj2 this] differ show False by simp
  qed
  with sealed kept have stale: "hash b' \<noteq> calculate_hash L b'" by metis
  show "\<not> is_chain_valid L (s\<lparr>chain_blocks := (chain_blocks s)[i := b']\<rparr>)"
    by (rule stale_block_rejected(1)[OF i1 il stale])
  show "is_chain_valid L s \<Longrightarrow>
          chain_verdict L (s\<lparr>chain_blocks := (chain_blocks s)[i := b']\<rparr>) = Invalid_hash i"
    by (rule stale_block_rejected(2)[OF i1 il stale])
next
  assume "chain_blocks s \<noteq> [] \<and> hash g' = hash (chain_blocks s ! 0)"
  then show "chain_verdict L (s\<lparr>chain_blocks := (chain_blocks s)[0 := g']\<rparr>) = chain_verdict L s"
    using genesis_not_checked by blast
qed

theorem field_mutation_detected_witness:
  "(1::nat) \<le> 1 \<and> 1 < length (chain_blocks exact_mined)
   \<and> hash (chain_blocks exact_mined ! 1) = calculate_hash exact_lib (chain_blocks exact_mined ! 1)
   \<and> hash overpaid_block1 = hash (chain_blocks exact_mined ! 1)
   \<and> transactions overpaid_block1 \<noteq> transactions (chain_blocks exact_mined ! 1)
   \<and> is_chain_valid exact_lib exact_mined
   \<and> \<not> is_chain_valid exact_lib
         (exact_mined\<lparr>chain_blocks := (chain_blocks exact_mined)[1 := overpaid_block1]\<rparr>)
   \<and> chain_verdict exact_lib
         (exact_mined\<lparr>chain_blocks := (chain_blocks exact_mined)[1 := overpaid_block1]\<rparr>)
        = Invalid_hash 1
   \<and> chain_blocks exact_mined \<noteq> []
   \<and> hash minting_genesis = hash (chain_blocks exact_mined ! 0)
   \<and> transactions minting_genesis \<noteq> transactions (chain_blocks exact_mined ! 0)
   \<and> chain_verdict exact_lib
         (exact_mined\<lparr>chain_blocks := (chain_blocks exact_mined)[0 := minting_genesis]\<rparr>)
        = Valid"
proof -
  have c: "chain_blocks exact_mined = [create_genesis_block exact_lib 0, exact_block1]"
    by (simp add: exact_mined_def)
  have at1: "chain_blocks exact_mined ! 1 = exact_block1" by (simp add: c)
  have at0: "chain_blocks exact_mined ! 0 = create_genesis_block exact_lib 0" by (simp add: c)
  have i1: "(1::nat) \<le> 1" by simp
  have il: "1 < length (chain_blocks exact_mined)" by (simp add: c)
  have sealed: "hash (chain_blocks exact_mined ! 1) = calculate_hash exact_lib (chain_blocks exact_mined ! 1)"
    unfolding at1 exact_block1_def by (rule Block_sealed)
  have kept: "hash overpaid_block1 = hash (chain_blocks exact_mined ! 1)"
    unfolding at1 by (simp add: overpaid_block1_def)
  have differ: "transactions overpaid_block1 \<noteq> transactions (chain_blocks exact_mined ! 1)"
    unfolding at1 by (simp add: overpaid_block1_def exact_block1_def Block_fields)
  have ne: "chain_blocks exact_mined \<noteq> []" by (simp add: c)
  have gkept: "hash minting_genesis = hash (chain_blocks exact_mined ! 0)"
    unfolding at0 by (simp add: minting_genesis_def)
  have gdiffer: "transactions minting_genesis \<noteq> transactions (chain_blocks exact_mined ! 0)"
    unfolding at0 by (simp add: minting_genesis_def create_genesis_block_def Block_fields)
  have hyp: "(1::nat) \<le> 1 \<and> 1 < length (chain_blocks exact_mined)
      \<and> inj (sha256_hexdigest exact_lib) \<and> inj (json_dumps exact_lib)
      \<and> hash (chain_blocks exact_mined ! 1) = calculate_hash exact_lib (chain_blocks exact_mined ! 1)
      \<and> hash overpaid_block1 = hash (chain_blocks exact_mined ! 1)
      \<and> (index overpaid_block1 \<noteq> index (chain_blocks exact_mined ! 1)
          \<or> timestamp overpaid_block1 \<noteq> timestamp (chain_blocks exact_mined ! 1)
          \<or> transactions overpaid_block1 \<noteq> transactions (chain_blocks exact_mined ! 1)
          \<or> task_certificates overpaid_block1 \<noteq> task_certificates (chain_blocks exact_mined ! 1)
          \<or> previous_hash overpaid_block1 \<noteq> previous_hash (chain_blocks exact_mined ! 1)
          \<or> nonce overpaid_block1 \<noteq> nonce (chain_blocks exact_mined ! 1))"
    apply (intro conjI)
          apply (rule i1)
         apply (rule il)
        apply (rule exact_lib_inj(1))
       apply (rule exact_lib_inj(2))
      apply (rule sealed)
     apply (rule kept)
    apply (rule disjI2, rule disjI2, rule disjI1, rule differ)
    done
  note inst = field_mutation_detected
    [of 1 exact_mined exact_lib overpaid_block1 minting_genesis]
  note first = inst [THEN conjunct1, THEN mp, OF hyp]
  have r1: "\<not> is_chain_valid exact_lib
         (exact_mined\<lparr>chain_blocks := (chain_blocks exact_mined)[1 := overpaid_block1]\<rparr>)"
    by (rule first [THEN conjunct1])
  have r2: "chain_verdict exact_lib
         (exact_mined\<lparr>chain_blocks := (chain_blocks exact_mined)[1 := overpaid_block1]\<rparr>)
        = Invalid_hash 1"
    by (rule first [THEN conjunct2, THEN mp, OF exact_mined_valid])
  have "chain_verdict exact_lib
         (exact_mined\<lparr>chain_blocks := (chain_blocks exact_mined)[0 := minting_genesis]\<rparr>)
        = chain_verdict exact_lib exact_mined"
    by (rule inst [THEN conjunct2, THEN mp, OF conjI [OF ne gkept]])
  also have "\<dots> = Valid" using exact_mined_valid by (simp only: is_chain_valid_def)
  finally have r3: "chain_verdict exact_lib
         (exact_mined\<lparr>chain_blocks := (chain_blocks exact_mined)[0 := minting_genesis]\<rparr>)
        = Valid" .
  show ?thesis
    apply (intro conjI)
               apply (rule i1)
              apply (rule il)
             apply (rule sealed)
            apply (rule kept)
           apply (rule differ)
          apply (rule exact_mined_valid)
         apply (rule r1)
        apply (rule r2)
       apply (rule ne)
      apply (rule gkept)
     apply (rule gdiffer)
    apply (rule r3)
    done
qed

subsection \<open>Certificates and the clock\<close>

lemma generate_task_certificate_reads:
  "generate_task_certificate L True clk tid ua n =
     (Some \<lparr>task_id = tid, user_address = ua, cert_timestamp = clk n,
             signature = sha256_hexdigest L (tid @ ua @ str_float L (clk (Suc n)))\<rparr>, Suc (Suc n))"
  by (simp add: generate_task_certificate_def time_time_def)

lemma generate_certificate_raises:
  "generate_certificate L clk tid ua n = (Inl NameError, n)"
  by (simp add: generate_certificate_def utils_globals_def)

text \<open>
  C2 asks that an issued certificate carries one clock reading, in its timestamp field and
  in the input of its signature. \<^verbatim>\<open>generate_task_certificate\<close> calls \<^verbatim>\<open>time.time()\<close> twice:
  on a clock that reads 1 and then 2, the timestamp of the certificate is 1 and its
  signature is the digest of \<open>task_0Alice2.0\<close>, while the digest over the certificate's own
  timestamp would be that of \<open>task_0Alice1.0\<close>.
\<close>

theorem generate_task_certificate_signature_mismatch:
  "generate_task_certificate demo_lib True demo_clock ''task_0'' ''Alice'' 0 =
     (Some \<lparr>task_id = ''task_0'', user_address = ''Alice'', cert_timestamp = 1,
             signature = ''task_0Alice2.0''\<rparr>, 2)
   \<and> sha256_hexdigest demo_lib (''task_0'' @ ''Alice'' @ str_float demo_lib 1) = ''task_0Alice1.0''"
  by (simp add: generate_task_certificate_reads demo_clock_def demo_lib_def)

subsection \<open>Selecting a validator\<close>

lemma walk_stakers_Some:
  "walk_stakers sel cur xs = Some k \<Longrightarrow>
     \<exists>i<length xs. k = fst (xs ! i)
        \<and> sel \<le> real_of_int (cur + sum_list (map snd (take (Suc i) xs)))
        \<and> (\<forall>j<i. real_of_int (cur + sum_list (map snd (take (Suc j) xs))) < sel)"
proof (induction xs arbitrary: cur)
  case Nil
  then show ?case by simp
next
  case (Cons x rest)
  obtain pk st where x: "x = (pk, st)" by (cases x)
  show ?case
  proof (cases "sel \<le> real_of_int (cur + st)")
    case True
    with Cons.prems x have "k = pk" by simp
    with True x show ?thesis by (intro exI[of _ 0]) simp
  next
    case False
    with Cons.prems x have "walk_stakers sel (cur + st) rest = Some k" by simp
    from Cons.IH[OF this] obtain i where i: "i < length rest" "k = fst (rest ! i)"
      "sel \<le> real_of_int (cur + st + sum_list (map snd (take (Suc i) rest)))"
      "\<forall>j<i. real_of_int (cur + st + sum_list (map snd (take (Suc j) rest))) < sel"
      by blast
    have "\<forall>j<Suc i. real_of_int (cur + sum_list (map snd (take (Suc j) (x # rest)))) < sel"
    proof (intro allI impI)
      fix j assume j: "j < Suc i"
      show "real_of_int (cur + sum_list (map snd (take (Suc j) (x # rest)))) < sel"
      proof (cases j)
        case 0
        with False x show ?thesis by simp
      next
        case (Suc j')
        with j have "j' < i" by simp
        with i(4) have "real_of_int (cur + st + sum_list (map snd (take (Suc j') rest))) < sel" by blast
        with Suc x show ?thesis by (simp add: add.assoc)
      qed
    qed
    with i x show ?thesis by (intro exI[of _ "Suc i"]) (simp add: add.assoc)
  qed
qed

lemma walk_stakers_None:
  "walk_stakers sel cur xs = None \<Longrightarrow>
     \<forall>j<length xs. real_of_int (cur + sum_list (map snd (take (Suc j) xs))) < sel"
proof (induction xs arbitrary: cur)
  case Nil
  then show ?case by simp
next
  case (Cons x rest)
  obtain pk st where x: "x = (pk, st)" by (cases x)
  from Cons.prems x have nf: "\<not> sel \<le> real_of_int (cur + st)"
    and rest: "walk_stakers sel (cur + st) rest = None"
    by (simp_all split: if_splits)
  show ?case
  proof (intro allI impI)
    fix j assume j: "j < length (x # rest)"
    show "real_of_int (cur + sum_list (map snd (take (Suc j) (x # rest)))) < sel"
    proof (cases j)
      case 0
      with nf x show ?thesis by simp
    next
      case (Suc j')
      with j have "j' < length rest" by simp
      with Cons.IH[OF rest] have "real_of_int (cur + st + sum_list (map snd (take (Suc j') rest))) < sel"
        by blast
      with Suc x show ?thesis by (simp add: add.assoc)
    qed
  qed
qed

text \<open>
  C8. \<^verbatim>\<open>select_validator\<close> raises the no-stakers error exactly when the ledger is empty. On
  a ledger with entries it returns a key of the ledger, whatever the draw: the first key,
  in iteration order, whose running total of stakes reaches the draw, or, when no running
  total reaches it, the last key.
\<close>

theorem select_validator_first_reaching_draw:
  "(select_validator uniform p = Inl NoStakers \<longleftrightarrow> stakers p = [])
   \<and> (stakers p \<noteq> [] \<longrightarrow>
        (\<exists>k. select_validator uniform p = Inr k
           \<and> k \<in> fst ` set (stakers p)
           \<and> ((\<exists>i<length (stakers p). k = fst (stakers p ! i)
                  \<and> uniform 0 (real_of_int (sum_list (map snd (stakers p))))
                       \<le> real_of_int (sum_list (map snd (take (Suc i) (stakers p))))
                  \<and> (\<forall>j<i. real_of_int (sum_list (map snd (take (Suc j) (stakers p))))
                              < uniform 0 (real_of_int (sum_list (map snd (stakers p))))))
              \<or> ((\<forall>j<length (stakers p). real_of_int (sum_list (map snd (take (Suc j) (stakers p))))
                              < uniform 0 (real_of_int (sum_list (map snd (stakers p)))))
                  \<and> k = fst (last (stakers p))))))"
proof (intro conjI impI)
  show "select_validator uniform p = Inl NoStakers \<longleftrightarrow> stakers p = []"
    by (simp add: select_validator_def Let_def split: option.splits)
next
  assume ne: "stakers p \<noteq> []"
  let ?sel = "uniform 0 (real_of_int (sum_list (map snd (stakers p))))"
  show "\<exists>k. select_validator uniform p = Inr k
           \<and> k \<in> fst ` set (stakers p)
           \<and> ((\<exists>i<length (stakers p). k = fst (stakers p ! i)
                  \<and> ?sel \<le> real_of_int (sum_list (map snd (take (Suc i) (stakers p))))
                  \<and> (\<forall>j<i. real_of_int (sum_list (map snd (take (Suc j) (stakers p)))) < ?sel))
              \<or> ((\<forall>j<length (stakers p). real_of_int (sum_list (map snd (take (Suc j) (stakers p)))) < ?sel)
                  \<and> k = fst (last (stakers p))))"
  proof (cases "walk_stakers ?sel 0 (stakers p)")
    case None
    have res: "select_validator uniform p = Inr (fst (last (stakers p)))"
      using ne None by (simp add: select_validator_def Let_def last_map)
    have mem: "fst (last (stakers p)) \<in> fst ` set (stakers p)"
      using ne by simp
    from walk_stakers_None[OF None]
    have "\<forall>j<length (stakers p). real_of_int (sum_list (map snd (take (Suc j) (stakers p)))) < ?sel"
      by simp
    with res mem show ?thesis by blast
  next
    case (Some k)
    have res: "select_validator uniform p = Inr k"
      using ne Some by (simp add: select_validator_def Let_def)
    from walk_stakers_Some[OF Some] obtain i where i: "i < length (stakers p)" "k = fst (stakers p ! i)"
      "?sel \<le> real_of_int (sum_list (map snd (take (Suc i) (stakers p))))"
      "\<forall>j<i. real_of_int (sum_list (map snd (take (Suc j) (stakers p)))) < ?sel"
      by auto
    then have mem: "k \<in> fst ` set (stakers p)" by simp
    from res mem i show ?thesis by blast
  qed
qed


theorem select_validator_first_reaching_draw_witness:
  "stakers demo_stakers \<noteq> []
   \<and> select_validator (\<lambda>a b. 95) demo_stakers = Inr ''B''
   \<and> ''B'' \<in> fst ` set (stakers demo_stakers)
   \<and> stakers ProofOfStake_init = []
   \<and> select_validator (\<lambda>a b. 95) ProofOfStake_init = Inl NoStakers"
proof -
  have ne: "stakers demo_stakers \<noteq> []" by (simp add: demo_stakers_def)
  have emp: "stakers ProofOfStake_init = []" by (simp add: ProofOfStake_init_def)
  have run: "select_validator (\<lambda>a b. 95) demo_stakers = Inr ''B''"
    by (simp add: select_validator_def demo_stakers_def Let_def)
  from select_validator_first_reaching_draw [of "\<lambda>a b. 95" demo_stakers, THEN conjunct2, THEN mp, OF ne]
  obtain k where k: "select_validator (\<lambda>a b. 95) demo_stakers = Inr k"
    and mem: "k \<in> fst ` set (stakers demo_stakers)" by blast
  from k run have "k = ''B''" by simp
  with mem have mem': "''B'' \<in> fst ` set (stakers demo_stakers)" by simp
  have none: "select_validator (\<lambda>a b. 95) ProofOfStake_init = Inl NoStakers"
    by (rule select_validator_first_reaching_draw [of "\<lambda>a b. 95" ProofOfStake_init, THEN conjunct1, THEN iffD2, OF emp])
  show ?thesis
    apply (intro conjI)
        apply (rule ne)
       apply (rule run)
      apply (rule mem')
     apply (rule emp)
    apply (rule none)
    done
qed

subsection \<open>Withdrawing a stake\<close>

text \<open>
  C9. \<^verbatim>\<open>remove_staker\<close> raises the insufficient-stake error exactly when the key is absent
  or its stake is less than the amount. Otherwise the stake is reduced by the amount and
  the other entries are kept; when the stake reaches zero the key is removed.
  \<^verbatim>\<open>calculate_reward\<close> is two times the stake divided by 100, in float arithmetic, with stake
  0 for an absent key: the quotient is rounded to a float (an overflow error when it is too
  large), and so is the product. Zero is a float, so rounding leaves it as it is, and then
  the reward of an absent key, in particular of a key whose stake was withdrawn in full,
  is the float 0 and not an error.
\<close>

theorem remove_staker_outcome:
  "(remove_staker public_key amt p = Inl InsufficientStake
      \<longleftrightarrow> (map_of (stakers p) public_key = None
           \<or> (\<exists>bal. map_of (stakers p) public_key = Some bal \<and> bal < amt)))
   \<and> (\<forall>bal. map_of (stakers p) public_key = Some bal \<and> amt \<le> bal \<longrightarrow>
         (\<exists>p'. remove_staker public_key amt p = Inr p'
            \<and> map_of (stakers p') public_key = (if bal - amt = 0 then None else Some (bal - amt))
            \<and> (\<forall>k. k \<noteq> public_key \<longrightarrow> map_of (stakers p') k = map_of (stakers p) k)
            \<and> (bal = amt \<longrightarrow> public_key \<notin> fst ` set (stakers p')
                  \<and> (round_float L 0 = Fin 0 \<longrightarrow> calculate_reward L p' public_key = Inr (Fin 0)))))
   \<and> (map_of (stakers p) validator = None \<and> round_float L 0 = Fin 0
         \<longrightarrow> calculate_reward L p validator = Inr (Fin 0))
   \<and> calculate_reward L p validator
        = (case round_float L
                  (rat_of_int (case map_of (stakers p) validator of Some v \<Rightarrow> v | None \<Rightarrow> 0) / 100) of
             Fin x \<Rightarrow> Inr (round_float L (2 * x))
           | _ \<Rightarrow> Inl OverflowError)"
proof (intro conjI allI impI)
  show "remove_staker public_key amt p = Inl InsufficientStake
      \<longleftrightarrow> (map_of (stakers p) public_key = None
           \<or> (\<exists>bal. map_of (stakers p) public_key = Some bal \<and> bal < amt))"
    by (auto simp: remove_staker_def Let_def split: option.splits)
next
  fix bal
  assume a: "map_of (stakers p) public_key = Some bal \<and> amt \<le> bal"
  show "\<exists>p'. remove_staker public_key amt p = Inr p'
            \<and> map_of (stakers p') public_key = (if bal - amt = 0 then None else Some (bal - amt))
            \<and> (\<forall>k. k \<noteq> public_key \<longrightarrow> map_of (stakers p') k = map_of (stakers p) k)
            \<and> (bal = amt \<longrightarrow> public_key \<notin> fst ` set (stakers p')
                  \<and> (round_float L 0 = Fin 0 \<longrightarrow> calculate_reward L p' public_key = Inr (Fin 0)))"
  proof (cases "bal - amt = 0")
    case True
    let ?p' = "p\<lparr>stakers := AList.delete public_key (AList.update public_key (bal - amt) (stakers p))\<rparr>"
    have run: "remove_staker public_key amt p = Inr ?p'"
      using a True by (simp add: remove_staker_def Let_def)
    have gone: "map_of (stakers ?p') public_key = None" by (simp add: delete_conv')
    have others: "\<forall>k. k \<noteq> public_key \<longrightarrow> map_of (stakers ?p') k = map_of (stakers p) k"
      by (simp add: update_conv')
    have notin: "public_key \<notin> fst ` set (stakers ?p')" by (simp add: delete_notin_dom)
    have rew: "round_float L 0 = Fin 0 \<longrightarrow> calculate_reward L ?p' public_key = Inr (Fin 0)"
      by (simp add: calculate_reward_def Let_def delete_conv')
    from run gone others notin rew True show ?thesis by (intro exI[of _ ?p']) simp
  next
    case False
    let ?p' = "p\<lparr>stakers := AList.update public_key (bal - amt) (stakers p)\<rparr>"
    have run: "remove_staker public_key amt p = Inr ?p'"
      using a False by (simp add: remove_staker_def Let_def)
    have now: "map_of (stakers ?p') public_key = Some (bal - amt)" by (simp add: update_conv')
    have others: "\<forall>k. k \<noteq> public_key \<longrightarrow> map_of (stakers ?p') k = map_of (stakers p) k"
      by (simp add: update_conv')
    from run now others False show ?thesis by (intro exI[of _ ?p']) simp
  qed
next
  assume "map_of (stakers p) validator = None \<and> round_float L 0 = Fin 0"
  then show "calculate_reward L p validator = Inr (Fin 0)"
    by (simp add: calculate_reward_def Let_def)
next
  show "calculate_reward L p validator
        = (case round_float L
                  (rat_of_int (case map_of (stakers p) validator of Some v \<Rightarrow> v | None \<Rightarrow> 0) / 100) of
             Fin x \<Rightarrow> Inr (round_float L (2 * x))
           | _ \<Rightarrow> Inl OverflowError)"
    by (simp add: calculate_reward_def Let_def)
qed

theorem remove_staker_outcome_witness:
  "map_of (stakers demo_stakers) ''B'' = Some 10 \<and> (10::int) \<le> 10
   \<and> round_float demo_lib 0 = Fin 0
   \<and> remove_staker ''B'' 10 demo_stakers = Inr \<lparr>stakers = [(''A'', 90)], min_stake = 10\<rparr>
   \<and> ''B'' \<notin> fst ` set (stakers \<lparr>stakers = [(''A'', 90)], min_stake = 10\<rparr>)
   \<and> calculate_reward demo_lib \<lparr>stakers = [(''A'', 90)], min_stake = 10\<rparr> ''B'' = Inr (Fin 0)
   \<and> map_of (stakers demo_stakers) ''C'' = None
   \<and> remove_staker ''C'' 1 demo_stakers = Inl InsufficientStake
   \<and> calculate_reward demo_lib demo_stakers ''C'' = Inr (Fin 0)
   \<and> calculate_reward demo_lib demo_stakers ''A'' = Inr (Fin (7 / 4))"
proof -
  have look: "map_of (stakers demo_stakers) ''B'' = Some 10" by (simp add: demo_stakers_def)
  have le: "(10::int) \<le> 10" by simp
  have zero: "round_float demo_lib 0 = Fin 0" by (simp add: demo_lib_def demo_round_def)
  have run: "remove_staker ''B'' 10 demo_stakers = Inr \<lparr>stakers = [(''A'', 90)], min_stake = 10\<rparr>"
    by (simp add: remove_staker_def demo_stakers_def Let_def)
  note inst = remove_staker_outcome [of "''B''" 10 demo_stakers demo_lib "''C''"]
  from inst [THEN conjunct2, THEN conjunct1, rule_format, OF conjI [OF look le]]
  obtain p' where p': "remove_staker ''B'' 10 demo_stakers = Inr p'"
    and rest: "map_of (stakers p') ''B'' = (if (10::int) - 10 = 0 then None else Some (10 - 10))
       \<and> (\<forall>k. k \<noteq> ''B'' \<longrightarrow> map_of (stakers p') k = map_of (stakers demo_stakers) k)
       \<and> ((10::int) = 10 \<longrightarrow> ''B'' \<notin> fst ` set (stakers p')
             \<and> (round_float demo_lib 0 = Fin 0 \<longrightarrow> calculate_reward demo_lib p' ''B'' = Inr (Fin 0)))"
    by (elim exE conjE) (rule that, assumption, intro conjI, assumption+)
  from p' run have eq: "p' = \<lparr>stakers = [(''A'', 90)], min_stake = 10\<rparr>" by simp
  note after = rest [THEN conjunct2, THEN conjunct2, THEN mp, OF refl]
  have gone: "''B'' \<notin> fst ` set (stakers \<lparr>stakers = [(''A'', 90)], min_stake = 10\<rparr>)"
    by (rule after [THEN conjunct1, unfolded eq])
  have rew: "calculate_reward demo_lib \<lparr>stakers = [(''A'', 90)], min_stake = 10\<rparr> ''B'' = Inr (Fin 0)"
    by (rule after [THEN conjunct2, THEN mp, OF zero, unfolded eq])
  have absent: "map_of (stakers demo_stakers) ''C'' = None" by (simp add: demo_stakers_def)
  have fail: "remove_staker ''C'' 1 demo_stakers = Inl InsufficientStake"
    by (rule remove_staker_outcome [of "''C''" 1 demo_stakers, THEN conjunct1, THEN iffD2, OF disjI1 [OF absent]])
  have rew0: "calculate_reward demo_lib demo_stakers ''C'' = Inr (Fin 0)"
    by (rule inst [THEN conjunct2, THEN conjunct2, THEN conjunct1, THEN mp, OF conjI [OF absent zero]])
  have q: "round_float demo_lib (rat_of_int 90 / 100) = Fin (7 / 8)"
    by (simp add: demo_lib_def demo_round_def round_def floor_eq_iff)
  have m: "round_float demo_lib (2 * (7 / 8)) = Fin (7 / 4)"
    by (simp add: demo_lib_def demo_round_def round_def floor_eq_iff)
  have formula: "calculate_reward demo_lib demo_stakers ''A''
        = (case round_float demo_lib
                  (rat_of_int (case map_of (stakers demo_stakers) ''A'' of Some v \<Rightarrow> v | None \<Rightarrow> 0) / 100) of
             Fin x \<Rightarrow> Inr (round_float demo_lib (2 * x))
           | _ \<Rightarrow> Inl OverflowError)"
    by (rule remove_staker_outcome [of "''B''" 10 demo_stakers demo_lib "''A''",
          THEN conjunct2, THEN conjunct2, THEN conjunct2])
  have stake: "map_of (stakers demo_stakers) ''A'' = Some 90" by (simp add: demo_stakers_def)
  have rewA: "calculate_reward demo_lib demo_stakers ''A'' = Inr (Fin (7 / 4))"
    by (subst formula) (simp only: stake option.case q pyfloat.case m)
  show ?thesis
    apply (intro conjI)
             apply (rule look)
            apply (rule le)
           apply (rule zero)
          apply (rule run)
         apply (rule gone)
        apply (rule rew)
       apply (rule absent)
      apply (rule fail)
     apply (rule rew0)
    apply (rule rewA)
    done
qed

end
